theory Spec2Isabelle
  imports Main "HOL-Library.Word" "HOL-Library.Multiset" "HOL-Library.Char_ord"
    "HOL-Library.List_Lexorder"
begin

section \<open>Go values, errors and results\<close>

text \<open>
  A value of Go's empty interface, as the payload maps of the secrets service hold it
  (\<^verbatim>\<open>map[string]interface{}\<close>). \<open>INil\<close> is the nil interface value.
\<close>

datatype iface =
    INil
  | IString string
  | IBool bool
  | INumber int
  | ISlice "iface list"
  | IMap "(string \<times> iface) list"

type_synonym rawmap = "string \<rightharpoonup> iface"

text \<open>An error value is its message (\<^verbatim>\<open>errors.New\<close>, \<^verbatim>\<open>err.Error()\<close>).\<close>

datatype error = Error string

primrec message :: "error \<Rightarrow> string" where
  "message (Error s) = s"

text \<open>
  What a call of a function returning \<^verbatim>\<open>(T, error)\<close> ends in: a value with a nil error,
  an error with the zero value, or a run-time panic (a nil pointer dereference or a failed
  single-value type assertion).
\<close>

datatype 'a result = Ok 'a | Err error | Panic

text \<open>The two-value type assertion \<^verbatim>\<open>t, ok = x.(string)\<close>: the zero value when it fails.\<close>

fun assertString :: "iface \<Rightarrow> string \<times> bool" where
  "assertString (IString s) = (s, True)"
| "assertString x = ([], False)"

section \<open>The secrets service (package vault)\<close>

text \<open>
  The fields of \<^verbatim>\<open>api.GenerateRootStatusResponse\<close> that the source reads.
\<close>

record GenerateRootStatusResponse =
  Nonce :: string
  EncodedRootToken :: string

text \<open>
  The functions of package vault that the source calls are not part of the translated file;
  they are parameters, acting on a service state \<open>'v\<close>. Each returns what the Go function
  returns, and the state after the call.
  \<^item> \<open>ReadFromCubbyhole\<close>: \<^verbatim>\<open>(*api.Secret, error)\<close>; \<open>Inr None\<close> is the nil secret,
    \<open>Inr (Some d)\<close> a secret whose \<^verbatim>\<open>Data\<close> is \<open>d\<close>.
  \<^item> \<open>WriteToCubbyhole\<close>: the error of \<^verbatim>\<open>(_, error)\<close>.
  \<^item> \<open>GenerateRootInit\<close>, \<open>GenerateRootUpdate\<close>: the pair \<^verbatim>\<open>(status, err)\<close>, status a pointer
    that may be nil.
  \<^item> \<open>WrapData\<close>: \<^verbatim>\<open>(string, error)\<close>; \<open>UnwrapData\<close>: \<^verbatim>\<open>(map[string]interface{}, error)\<close>.
\<close>

record 'v vault =
  ReadFromCubbyhole :: "string \<Rightarrow> 'v \<Rightarrow> (error + rawmap option) \<times> 'v"
  WriteToCubbyhole :: "string \<Rightarrow> rawmap \<Rightarrow> 'v \<Rightarrow> error option \<times> 'v"
  GenerateRootInit :: "string \<Rightarrow> 'v \<Rightarrow> (GenerateRootStatusResponse option \<times> error option) \<times> 'v"
  GenerateRootUpdate :: "string \<Rightarrow> string \<Rightarrow> 'v \<Rightarrow> (GenerateRootStatusResponse option \<times> error option) \<times> 'v"
  GenerateRootCancel :: "'v \<Rightarrow> error option \<times> 'v"
  WrapData :: "string \<Rightarrow> rawmap \<Rightarrow> 'v \<Rightarrow> (error + string) \<times> 'v"
  UnwrapData :: "string \<Rightarrow> 'v \<Rightarrow> (error + rawmap) \<times> 'v"

section \<open>unwrapUnseals\<close>

text \<open>
  The loop of \<^verbatim>\<open>unwrapUnseals\<close> over the remaining tokens, with the named result
  \<^verbatim>\<open>unseals\<close> as accumulator. \<^verbatim>\<open>unseal.(string)\<close> is the single-value assertion: it panics
  on a value that is not a string.
\<close>

fun unwrapLoop :: "'v vault \<Rightarrow> string list \<Rightarrow> string list \<Rightarrow> 'v \<Rightarrow> string list result \<times> 'v" where
  "unwrapLoop V [] unseals v = (Ok unseals, v)"
| "unwrapLoop V (wrappingToken # rest) unseals v =
     (case UnwrapData V wrappingToken v of
        (Inl err, v') \<Rightarrow> (Err err, v')
      | (Inr data, v') \<Rightarrow>
          (case data ''unseal_token'' of
             Some unseal \<Rightarrow>
               (case unseal of
                  IString s \<Rightarrow> unwrapLoop V rest (unseals @ [s]) v'
                | _ \<Rightarrow> (Panic, v'))
           | None \<Rightarrow>
               (Err (Error ''One of the wrapping tokens timed out. Progress reset.''), v')))"

definition unwrapUnseals :: "'v vault \<Rightarrow> string list \<Rightarrow> 'v \<Rightarrow> string list result \<times> 'v" where
  "unwrapUnseals V wrappingTokens v = unwrapLoop V wrappingTokens [] v"

text \<open>
  The payloads the service hands out when the tokens are unwrapped one after the other,
  up to the first token it refuses.
\<close>

fun payloads :: "'v vault \<Rightarrow> string list \<Rightarrow> 'v \<Rightarrow> rawmap list" where
  "payloads V [] v = []"
| "payloads V (t # ts) v =
     (case UnwrapData V t v of
        (Inl e, v') \<Rightarrow> []
      | (Inr d, v') \<Rightarrow> d # payloads V ts v')"

section \<open>Strings (packages strings and fmt)\<close>

text \<open>
  Go strings are byte strings holding UTF-8. \<open>spaceWidth s\<close> is the number of bytes of the
  white space character (\<^verbatim>\<open>unicode.IsSpace\<close>) that \<open>s\<close> starts with, and 0 when it starts with
  none: the six ASCII spaces, U+0085, U+00A0, U+1680, U+2000 to U+200A, U+2028, U+2029,
  U+202F, U+205F and U+3000.
\<close>

definition asciiSpace :: "char \<Rightarrow> bool" where
  "asciiSpace c = (c \<in> set [CHR 0x09, CHR 0x0A, CHR 0x0B, CHR 0x0C, CHR 0x0D, CHR 0x20])"

definition spaceWidth :: "string \<Rightarrow> nat" where
  "spaceWidth s =
     (case s of
        [] \<Rightarrow> 0
      | c # r \<Rightarrow>
          if asciiSpace c then 1
          else if c = CHR 0xC2 then
            (if take 1 r = [CHR 0x85] \<or> take 1 r = [CHR 0xA0] then 2 else 0)
          else if c = CHR 0xE1 then
            (if take 2 r = [CHR 0x9A, CHR 0x80] then 3 else 0)
          else if c = CHR 0xE2 then
            (case r of
               d # e # _ \<Rightarrow>
                 if d = CHR 0x80 \<and> ((0x80::nat) \<le> of_char e \<and> of_char e \<le> (0x8A::nat)
                      \<or> e \<in> set [CHR 0xA8, CHR 0xA9, CHR 0xAF]) then 3
                 else if d = CHR 0x81 \<and> e = CHR 0x9F then 3
                 else 0
             | _ \<Rightarrow> 0)
          else if c = CHR 0xE3 then
            (if take 2 r = [CHR 0x80, CHR 0x80] then 3 else 0)
          else 0)"

text \<open>
  \<^verbatim>\<open>strings.Fields\<close>: the maximal runs of bytes between white space. \<open>skip\<close> counts the
  bytes of a white space character still to pass over, \<open>cur\<close> is the current field, reversed.
\<close>

fun fieldsFrom :: "nat \<Rightarrow> string \<Rightarrow> string \<Rightarrow> string list" where
  "fieldsFrom skip cur [] = (if cur = [] then [] else [rev cur])"
| "fieldsFrom (Suc skip) cur (c # s) = fieldsFrom skip cur s"
| "fieldsFrom 0 cur (c # s) =
     (if spaceWidth (c # s) = 0 then fieldsFrom 0 (c # cur) s
      else (if cur = [] then [] else [rev cur]) @ fieldsFrom (spaceWidth (c # s) - 1) [] s)"

definition Fields :: "string \<Rightarrow> string list" where
  "Fields s = fieldsFrom 0 [] s"

text \<open>\<^verbatim>\<open>strings.Join\<close>.\<close>

fun Join :: "string list \<Rightarrow> string \<Rightarrow> string" where
  "Join [] sep = []"
| "Join [x] sep = x"
| "Join (x # y # ys) sep = x @ sep @ Join (y # ys) sep"

text \<open>\<^verbatim>\<open>fmt.Sprint\<close> of one \<^verbatim>\<open>[]string\<close>: the elements between brackets, a space apart.\<close>

definition Sprint :: "string list \<Rightarrow> string" where
  "Sprint a = ''['' @ Join a '' '' @ '']''"

text \<open>\<^verbatim>\<open>strings.Trim\<close> for a cutset of ASCII characters, as the source passes.\<close>

definition Trim :: "string \<Rightarrow> string \<Rightarrow> string" where
  "Trim s cutset =
     rev (dropWhile (\<lambda>c. c \<in> set cutset) (rev (dropWhile (\<lambda>c. c \<in> set cutset) s)))"

text \<open>
  \<^verbatim>\<open>strings.Split\<close>: the pieces of \<open>s\<close> between the occurrences of \<open>sep\<close>, read from the left.
  The source passes a separator of one byte; with the empty separator Go splits after every
  UTF-8 sequence, which is modelled here per byte.
\<close>

fun splitFrom :: "string \<Rightarrow> nat \<Rightarrow> string \<Rightarrow> string \<Rightarrow> string list" where
  "splitFrom sep skip cur [] = [rev cur]"
| "splitFrom sep (Suc skip) cur (c # s) = splitFrom sep skip cur s"
| "splitFrom sep 0 cur (c # s) =
     (if take (length sep) (c # s) = sep then rev cur # splitFrom sep (length sep - 1) [] s
      else splitFrom sep 0 (c # cur) s)"

definition Split :: "string \<Rightarrow> string \<Rightarrow> string list" where
  "Split s sep = (if sep = [] then map (\<lambda>c. [c]) s else splitFrom sep 0 [] s)"

text \<open>
  \<^verbatim>\<open>strconv.FormatUint\<close>: the digits of \<open>i\<close> in the given base, lower case, without leading
  zeros. Go panics on a base outside 2 to 36; the source passes 16, and the model gives the
  empty string for such a base.
\<close>

definition digits :: string where
  "digits = ''0123456789abcdefghijklmnopqrstuvwxyz''"

function formatBits :: "nat \<Rightarrow> nat \<Rightarrow> string" where
  "formatBits base n =
     (if base < 2 \<or> n < base then [digits ! n]
      else formatBits base (n div base) @ [digits ! (n mod base)])"
  by pat_completeness auto
termination
  by (relation "measure (\<lambda>(base, n). n)") auto

declare formatBits.simps [simp del]

definition FormatUint :: "64 word \<Rightarrow> nat \<Rightarrow> string" where
  "FormatUint i base = (if 2 \<le> base \<and> base \<le> 36 then formatBits base (unat i) else [])"

section \<open>appendUnseal\<close>

definition appendUnseal :: "'v vault \<Rightarrow> string \<Rightarrow> string \<Rightarrow> 'v \<Rightarrow> (string list \<times> error option) \<times> 'v" where
  "appendUnseal V hash unseal v =
     (case ReadFromCubbyhole V (''unseal_wrapping_tokens/'' @ hash) v of
        (Inl err, v1) \<Rightarrow> (([], Some err), v1)
      | (Inr resp, v1) \<Rightarrow>
          (case
             (case resp of
                None \<Rightarrow> Inr []
              | Some data \<Rightarrow>
                  (let raw = (case data ''wrapping_tokens'' of
                                Some temp \<Rightarrow> fst (assertString temp)
                              | None \<Rightarrow> [])
                   in if raw = []
                      then Inl (Error ''Could not find key 'wrapping_tokens' in cubbyhole'')
                      else Inr (Split raw '';'')))
           of
             Inl err \<Rightarrow> (([], Some err), v1)
           | Inr wrappingTokens \<Rightarrow>
               (case WrapData V ''60m'' [''unseal_token'' \<mapsto> IString unseal] v1 of
                  (Inl err, v2) \<Rightarrow> (([], Some err), v2)
                | (Inr newWrappingToken, v2) \<Rightarrow>
                    (let wrappingTokens' = wrappingTokens @ [newWrappingToken] in
                     case WriteToCubbyhole V (''unseal_wrapping_tokens/'' @ hash)
                            [''wrapping_tokens'' \<mapsto>
                               IString (Trim (Join (Fields (Sprint wrappingTokens')) '';'') ''[]'')]
                            v2 of
                       (err, v3) \<Rightarrow> ((wrappingTokens', err), v3)))))"

text \<open>The calls of \<^verbatim>\<open>appendUnseal\<close> for one change ID, one share after the other.\<close>

fun appendUnseals :: "'v vault \<Rightarrow> string \<Rightarrow> string list \<Rightarrow> 'v \<Rightarrow> (string list \<times> error option) list \<times> 'v" where
  "appendUnseals V hash [] v = ([], v)"
| "appendUnseals V hash (unseal # rest) v =
     (case appendUnseal V hash unseal v of
        (r, v') \<Rightarrow> (case appendUnseals V hash rest v' of (rs, v'') \<Rightarrow> (r # rs, v'')))"

section \<open>generateRootToken\<close>

text \<open>
  The library functions the source calls, as parameters:
  \<^item> \<open>GenerateRandomKey n\<close>: the key that \<^verbatim>\<open>securecookie.GenerateRandomKey\<close> draws in this run;
  \<^item> \<open>EncodeToString\<close>: \<^verbatim>\<open>base64.StdEncoding.EncodeToString\<close>;
  \<^item> \<open>XORBase64\<close>: \<^verbatim>\<open>xor.XORBase64\<close>; \<open>FormatUUID\<close>: \<^verbatim>\<open>uuid.FormatUUID\<close>;
  \<^item> \<open>ToLower\<close>: \<^verbatim>\<open>strings.ToLower\<close>;
  \<^item> \<open>Decode\<close>: \<^verbatim>\<open>mapstructure.Decode\<close> into a \<^verbatim>\<open>PolicyRequest\<close>;
  \<^item> \<open>Hash\<close>: \<^verbatim>\<open>hashstructure.Hash\<close> of a \<^verbatim>\<open>PolicyRequest\<close>, a \<^verbatim>\<open>uint64\<close> or an error.
\<close>

text \<open>
  Modelled from the spec: the struct \<^verbatim>\<open>PolicyRequest\<close> is declared in a file of package
  request that is not among the translated sources. The spec gives the persisted shape of a
  request as the field \<^verbatim>\<open>Type\<close>, a string, and the fields of the variant, and its example
  request has the one variant field \<^verbatim>\<open>Name\<close>, a string.
\<close>

record PolicyRequest =
  Type :: string
  Name :: string

record library =
  GenerateRandomKey :: "nat \<Rightarrow> 8 word list"
  EncodeToString :: "8 word list \<Rightarrow> string"
  XORBase64 :: "string \<Rightarrow> string \<Rightarrow> error + 8 word list"
  FormatUUID :: "8 word list \<Rightarrow> error + string"
  ToLower :: "string \<Rightarrow> string"
  Decode :: "rawmap \<Rightarrow> error + PolicyRequest"
  Hash :: "PolicyRequest \<Rightarrow> error + 64 word"

text \<open>
  The loop over the unseal keys. It ends the function (\<open>Inl\<close>: a return or a panic) or falls
  through with the status it last assigned (\<open>Inr\<close>). \<^verbatim>\<open>status.Nonce\<close> panics on a nil status.
\<close>

fun submitShares ::
  "'v vault \<Rightarrow> string list \<Rightarrow> GenerateRootStatusResponse option \<Rightarrow> 'v \<Rightarrow>
   (string result + GenerateRootStatusResponse option) \<times> 'v" where
  "submitShares V [] status v = (Inr status, v)"
| "submitShares V (s # rest) status v =
     (case status of
        None \<Rightarrow> (Inl Panic, v)
      | Some st \<Rightarrow>
          (case GenerateRootUpdate V s (Nonce st) v of
             ((status', None), v1) \<Rightarrow> submitShares V rest status' v1
           | ((status', Some err), v1) \<Rightarrow>
               (case GenerateRootCancel V v1 of
                  (Some err2, v2) \<Rightarrow>
                    (Inl (Err (Error (''Could not generate root token: '' @ message err
                                        @ '', '' @ message err2))), v2)
                | (None, v2) \<Rightarrow> submitShares V rest status' v2)))"

text \<open>Lines 160 to 170: the encoded token is combined with the pad and formatted.\<close>

definition decodeRootToken :: "library \<Rightarrow> string \<Rightarrow> string \<Rightarrow> string result" where
  "decodeRootToken L encoded otp =
     (case XORBase64 L encoded otp of
        Inl err \<Rightarrow> Err (Error ''Could not decode root token. Please search and revoke'')
      | Inr tokenBytes \<Rightarrow>
          (case FormatUUID L tokenBytes of
             Inl err \<Rightarrow> Err (Error ''Could not decode root token. Please search and revoke'')
           | Inr token \<Rightarrow> Ok token))"

definition generateRootToken :: "'v vault \<Rightarrow> library \<Rightarrow> string list \<Rightarrow> 'v \<Rightarrow> string result \<times> 'v" where
  "generateRootToken V L unsealKeys v =
     (let otp = EncodeToString L (GenerateRandomKey L 16) in
      case GenerateRootInit V otp v of
        ((status, Some err), v1) \<Rightarrow> (Err err, v1)
      | ((None, None), v1) \<Rightarrow> (Panic, v1)
      | ((Some st, None), v1) \<Rightarrow>
          (case (if EncodedRootToken st = [] then submitShares V unsealKeys (Some st) v1
                 else (Inr (Some st), v1)) of
             (Inl r, v2) \<Rightarrow> (r, v2)
           | (Inr None, v2) \<Rightarrow> (Panic, v2)
           | (Inr (Some st'), v2) \<Rightarrow>
               if EncodedRootToken st' = []
               then (Err (Error ''Could not generate root token. Was vault re-keyed just now?''), v2)
               else (decodeRootToken L (EncodedRootToken st') otp, v2)))"

section \<open>Add, Get and Remove\<close>

text \<open>
  The methods of \<^verbatim>\<open>PolicyRequest\<close> that the source calls are parameters too: \<open>Create\<close> on the
  zero request, \<open>Verify\<close> and \<open>Reject\<close> on the decoded one. \<open>'a\<close> is \<^verbatim>\<open>vault.AuthInfo\<close>.
\<close>

record ('v, 'a) methods =
  Create :: "'a \<Rightarrow> rawmap \<Rightarrow> 'v \<Rightarrow> (string \<times> error option) \<times> 'v"
  Verify :: "PolicyRequest \<Rightarrow> 'a \<Rightarrow> 'v \<Rightarrow> error option \<times> 'v"
  Reject :: "PolicyRequest \<Rightarrow> 'a \<Rightarrow> string \<Rightarrow> 'v \<Rightarrow> error option \<times> 'v"

text \<open>The string under the key \<^verbatim>\<open>Type\<close>, empty when the key is absent or holds no string.\<close>

definition typeOf :: "rawmap \<Rightarrow> string" where
  "typeOf raw = (case raw ''Type'' of Some typeRaw \<Rightarrow> fst (assertString typeRaw) | None \<Rightarrow> [])"

definition Add :: "('v, 'a) methods \<Rightarrow> library \<Rightarrow> 'a \<Rightarrow> rawmap \<Rightarrow> 'v \<Rightarrow> (string \<times> error option) \<times> 'v" where
  "Add P L auth raw v =
     (let t = typeOf raw in
      if t = [] then (([], Some (Error ''Type field is empty'')), v)
      else if ToLower L t = ''policy'' then Create P auth raw v
      else (([], Some (Error ''Unsupported request type'')), v))"

text \<open>
  The test of lines 75 and 119:
  \<^verbatim>\<open>err != nil || strconv.FormatUint(hash_uint64, 16) != hash\<close>.
\<close>

definition hashMismatch :: "library \<Rightarrow> PolicyRequest \<Rightarrow> string \<Rightarrow> bool" where
  "hashMismatch L req hash =
     (case Hash L req of
        Inl err \<Rightarrow> True
      | Inr hash_uint64 \<Rightarrow> FormatUint hash_uint64 16 \<noteq> hash)"

definition Get ::
  "'v vault \<Rightarrow> ('v, 'a) methods \<Rightarrow> library \<Rightarrow> 'a \<Rightarrow> string \<Rightarrow> 'v \<Rightarrow> (error + PolicyRequest) \<times> 'v" where
  "Get V P L auth hash v =
     (case ReadFromCubbyhole V (''requests/'' @ hash) v of
        (Inl err, v1) \<Rightarrow> (Inl err, v1)
      | (Inr None, v1) \<Rightarrow> (Inl (Error ''Change ID not found''), v1)
      | (Inr (Some data), v1) \<Rightarrow>
          (let t = typeOf data in
           if t = [] then (Inl (Error ''Invalid request type''), v1)
           else if ToLower L t = ''policy'' then
             (case Decode L data of
                Inl err \<Rightarrow> (Inl err, v1)
              | Inr req \<Rightarrow>
                  if hashMismatch L req hash then (Inl (Error ''Hashes do not match''), v1)
                  else (case Verify P req auth v1 of
                          (Some err, v2) \<Rightarrow> (Inl err, v2)
                        | (None, v2) \<Rightarrow> (Inr req, v2)))
           else (Inl (Error (''Invalid request type: '' @ t)), v1)))"

definition Remove ::
  "'v vault \<Rightarrow> ('v, 'a) methods \<Rightarrow> library \<Rightarrow> 'a \<Rightarrow> string \<Rightarrow> 'v \<Rightarrow> error option \<times> 'v" where
  "Remove V P L auth hash v =
     (case ReadFromCubbyhole V (''requests/'' @ hash) v of
        (Inl err, v1) \<Rightarrow> (Some err, v1)
      | (Inr None, v1) \<Rightarrow> (Some (Error ''Change ID not found''), v1)
      | (Inr (Some data), v1) \<Rightarrow>
          (let t = typeOf data in
           if t = [] then (Some (Error ''Invalid request type''), v1)
           else if ToLower L t = ''policy'' then
             (case Decode L data of
                Inl err \<Rightarrow> (Some err, v1)
              | Inr req \<Rightarrow>
                  if hashMismatch L req hash then (Some (Error ''Hashes do not match''), v1)
                  else Reject P req auth hash v1)
           else (Some (Error (''Invalid request type: '' @ t)), v1)))"

section \<open>A model of the service\<close>

text \<open>
  Modelled from the spec: the storage, wrap and unwrap operations of the secrets service
  (section 6 of the spec), whose code is not among the translated sources. \<open>read\<close> returns
  what the last \<open>write\<close> to the path stored, or nothing; \<open>wrap\<close> issues the next token of
  \<open>mint\<close> for the fields; \<open>unwrap\<close> returns the fields of a token once, and fails for a token
  that was consumed, has expired or was never issued (it is not in \<open>wrapped\<close>). The replies
  of the regeneration ceremony are given (\<open>init\<close>, \<open>update\<close>, \<open>cancel\<close>); the state records
  the shares submitted and the number of cancellations.
\<close>

record world =
  cubbyhole :: "string \<rightharpoonup> rawmap"
  wrapped :: "string \<rightharpoonup> rawmap"
  minted :: nat
  submitted :: "string list"
  cancelled :: nat

definition service ::
  "(nat \<Rightarrow> string) \<Rightarrow> (GenerateRootStatusResponse option \<times> error option) \<Rightarrow>
   (string \<Rightarrow> string \<Rightarrow> GenerateRootStatusResponse option \<times> error option) \<Rightarrow> error option \<Rightarrow>
   world vault" where
  "service mint init update cancel =
     \<lparr> ReadFromCubbyhole = (\<lambda>path w. (Inr (cubbyhole w path), w)),
       WriteToCubbyhole = (\<lambda>path entries w. (None, w\<lparr>cubbyhole := (cubbyhole w)(path \<mapsto> entries)\<rparr>)),
       GenerateRootInit = (\<lambda>otp w. (init, w)),
       GenerateRootUpdate = (\<lambda>share nonce w. (update share nonce, w\<lparr>submitted := submitted w @ [share]\<rparr>)),
       GenerateRootCancel = (\<lambda>w. (cancel, w\<lparr>cancelled := Suc (cancelled w)\<rparr>)),
       WrapData = (\<lambda>ttl entries w.
          (Inr (mint (minted w)),
           w\<lparr>wrapped := (wrapped w)(mint (minted w) \<mapsto> entries), minted := Suc (minted w)\<rparr>)),
       UnwrapData = (\<lambda>token w.
          (case wrapped w token of
             None \<Rightarrow> (Inl (Error ''wrapping token is not valid or does not exist''), w)
           | Some entries \<Rightarrow> (Inr entries, w\<lparr>wrapped := (wrapped w)(token := None)\<rparr>))) \<rparr>"

text \<open>States and replies for the examples.\<close>

definition idle :: world where
  "idle = \<lparr> cubbyhole = Map.empty, wrapped = Map.empty, minted = 0, submitted = [], cancelled = 0 \<rparr>"

definition holding :: "(string \<times> rawmap) list \<Rightarrow> world" where
  "holding tokens = idle\<lparr>wrapped := map_of tokens\<rparr>"

definition storing :: "(string \<times> rawmap) list \<Rightarrow> world" where
  "storing records = idle\<lparr>cubbyhole := map_of records\<rparr>"

definition tick :: "nat \<Rightarrow> string" where
  "tick n = replicate (Suc n) CHR ''t''"

definition refusing :: "GenerateRootStatusResponse option \<times> error option" where
  "refusing = (None, Some (Error ''root generation is not allowed''))"

text \<open>
  The characters of a wrapping token as the service issues them (a UUID, or letters, digits
  and dots): printable ASCII other than the semicolon and the brackets.
\<close>

definition tokenChar :: "char \<Rightarrow> bool" where
  "tokenChar c = ((0x21::nat) \<le> of_char c \<and> of_char c \<le> (0x7E::nat)
                   \<and> c \<notin> set [CHR '';'', CHR ''['', CHR '']''])"

definition tokenText :: "string \<Rightarrow> bool" where
  "tokenText t = (t \<noteq> [] \<and> (\<forall>c \<in> set t. tokenChar c))"

text \<open>
  Modelled from the spec: decoding the stored payload into the request, which the spec
  describes as decoding the full payload into the matching variant (the library function
  and the struct are not among the translated sources). Each field is read from the key of
  its name; a missing or nil entry leaves the empty string, and an entry that is not a
  string is an error.
\<close>

definition decodeField :: "rawmap \<Rightarrow> string \<Rightarrow> error + string" where
  "decodeField data key =
     (case data key of
        None \<Rightarrow> Inr []
      | Some INil \<Rightarrow> Inr []
      | Some (IString s) \<Rightarrow> Inr s
      | Some _ \<Rightarrow> Inl (Error (''expected type string for field '' @ key)))"

definition decodePolicy :: "rawmap \<Rightarrow> error + PolicyRequest" where
  "decodePolicy data =
     (case decodeField data ''Type'' of
        Inl err \<Rightarrow> Inl err
      | Inr t \<Rightarrow>
          (case decodeField data ''Name'' of
             Inl err \<Rightarrow> Inl err
           | Inr n \<Rightarrow> Inr \<lparr> Type = t, Name = n \<rparr>))"

text \<open>The lower case of \<^verbatim>\<open>strings.ToLower\<close> on ASCII letters, for the examples.\<close>

definition lowerASCII :: "char \<Rightarrow> char" where
  "lowerASCII c =
     (if (0x41::nat) \<le> of_char c \<and> of_char c \<le> (0x5A::nat) then char_of (of_char c + (0x20::nat)) else c)"

text \<open>
  A library for the examples: the request is decoded by \<open>decodePolicy\<close> and hashed by the
  given function; the pad and the token are passed through unchanged.
\<close>

definition hashing :: "(PolicyRequest \<Rightarrow> 64 word) \<Rightarrow> library" where
  "hashing hashfn =
     \<lparr> GenerateRandomKey = (\<lambda>n. replicate n 0),
       EncodeToString = map (\<lambda>b. char_of (unat b)),
       XORBase64 = (\<lambda>encoded otp. Inr (map (\<lambda>c. of_nat (of_char c)) encoded)),
       FormatUUID = (\<lambda>buf. Inr (map (\<lambda>b. char_of (unat b)) buf)),
       ToLower = map lowerASCII,
       Decode = decodePolicy,
       Hash = (\<lambda>req. Inr (hashfn req)) \<rparr>"

text \<open>Methods for the examples: every request is created under one ID, verified and rejected.\<close>

definition accepting :: "(world, unit) methods" where
  "accepting =
     \<lparr> Create = (\<lambda>auth raw w. ((''c0ffee'', None), w\<lparr>cubbyhole := (cubbyhole w)(''requests/c0ffee'' \<mapsto> raw)\<rparr>)),
       Verify = (\<lambda>req auth w. (None, w)),
       Reject = (\<lambda>req auth hash w. (None, w\<lparr>cubbyhole := (cubbyhole w)(''requests/'' @ hash := None)\<rparr>)) \<rparr>"

section \<open>The structural hash\<close>

text \<open>
  Modelled from the spec: the structural hash of a request, which the source takes from a
  library that is not among the translated sources. The spec describes it as a
  deterministic hash over all fields of the decoded variant, independent of any field or
  iteration ordering, had from a canonical, stable-order serialization that is fed into a
  deterministic hash function. A field is its name and its value; the canonical form of the
  fields is the list of them in the order of their names; \<open>H\<close> is the hash function that is
  applied to the canonical form, with the 64 bits of the \<^verbatim>\<open>uint64\<close> in the source.
\<close>

definition canonical :: "(string \<times> string) list \<Rightarrow> (string \<times> string) list" where
  "canonical fs = sort_key fst fs"

definition structuralHash :: "((string \<times> string) list \<Rightarrow> 64 word) \<Rightarrow> (string \<times> string) list \<Rightarrow> 64 word" where
  "structuralHash H fs = H (canonical fs)"

text \<open>The fields of the request, in the order of the struct.\<close>

definition fieldsOf :: "PolicyRequest \<Rightarrow> (string \<times> string) list" where
  "fieldsOf req = [(''Type'', Type req), (''Name'', Name req)]"

text \<open>
  The change ID of a list of fields: the hash in base 16, as lines 75 and 119 render it.
\<close>

definition computeHash :: "((string \<times> string) list \<Rightarrow> 64 word) \<Rightarrow> (string \<times> string) list \<Rightarrow> string" where
  "computeHash H fs = FormatUint (structuralHash H fs) 16"

text \<open>
  A hash function for the examples: FNV-1a in 64 bits over the bytes of the names and the
  values, each followed by a zero byte.
\<close>

definition fnv1a :: "string \<Rightarrow> 64 word" where
  "fnv1a bytes = fold (\<lambda>b h. (xor h (of_nat (of_char b))) * 1099511628211) bytes 14695981039346656037"

definition fnvFields :: "(string \<times> string) list \<Rightarrow> 64 word" where
  "fnvFields fs = fnv1a (concat (map (\<lambda>(k, v). k @ [CHR 0x00] @ v @ [CHR 0x00]) fs))"

section \<open>Properties of unwrapUnseals\<close>

lemma unwrapLoop_append:
  "unwrapLoop V pre acc v = (Ok ss, v1) \<Longrightarrow>
   unwrapLoop V (pre @ post) acc v = unwrapLoop V post ss v1"
proof (induction pre arbitrary: acc v)
  case Nil
  then show ?case by simp
next
  case (Cons t pre)
  then show ?case
    by (auto split: prod.splits sum.splits option.splits iface.splits)
qed

lemma unwrapLoop_Ok_length:
  "unwrapLoop V ts acc v = (Ok ss, v') \<Longrightarrow> length ss = length acc + length ts"
proof (induction ts arbitrary: acc v)
  case Nil
  then show ?case by simp
next
  case (Cons t ts)
  then show ?case
    by (fastforce split: prod.splits sum.splits option.splits iface.splits)
qed

lemma unwrapLoop_no_panic:
  "\<forall>d \<in> set (payloads V ts v). \<forall>x. d ''unseal_token'' = Some x \<longrightarrow> (\<exists>s. x = IString s) \<Longrightarrow>
   fst (unwrapLoop V ts acc v) \<noteq> Panic"
proof (induction ts arbitrary: acc v)
  case Nil
  then show ?case by simp
next
  case (Cons t ts)
  then show ?case
    by (fastforce split: prod.splits sum.splits option.splits iface.splits)
qed

lemma unwrapLoop_refused:
  "length (payloads V ts v) < length ts \<Longrightarrow> fst (unwrapLoop V ts acc v) \<noteq> Ok ss"
proof (induction ts arbitrary: acc v)
  case Nil
  then show ?case by simp
next
  case (Cons t ts)
  then show ?case
    by (fastforce split: prod.splits sum.splits option.splits iface.splits)
qed

text \<open>
  C4. The tokens are unwrapped in order. When the tokens before \<open>t\<close> were all unwrapped and
  gave the shares \<open>shares\<close>, and the service refuses \<open>t\<close> with the error \<open>e\<close>, the call returns
  \<open>e\<close> and no share, whatever tokens \<open>post\<close> follow, and in the state the refused unwrap
  left: no later token is unwrapped. When the service refuses any of the tokens unwrapped
  in order, the call returns no shares. A call that returns shares returns one for every
  token.
\<close>

theorem unwrapUnseals_all_or_nothing:
  "(unwrapUnseals V pre v = (Ok shares, v1) \<and> UnwrapData V t v1 = (Inl e, v2)
      \<longrightarrow> unwrapUnseals V (pre @ t # post) v = (Err e, v2))
   \<and> (length (payloads V ts v) < length ts \<longrightarrow> fst (unwrapUnseals V ts v) \<noteq> Ok ss)
   \<and> (unwrapUnseals V ts v = (Ok ss, v') \<longrightarrow> length ss = length ts)"
  unfolding unwrapUnseals_def
  using unwrapLoop_append[of V pre "[]" v shares v1 "t # post"]
    unwrapLoop_Ok_length[of V ts "[]" v ss v'] unwrapLoop_refused[of V ts v "[]" ss]
  by auto

theorem unwrapUnseals_all_or_nothing_witness:
  "unwrapUnseals (service tick refusing (\<lambda>s n. refusing) None) [''a'']
       (holding [(''a'', [''unseal_token'' \<mapsto> IString ''k1'']),
                 (''c'', [''unseal_token'' \<mapsto> IString ''k3''])])
     = (Ok [''k1''], holding [(''c'', [''unseal_token'' \<mapsto> IString ''k3''])])
   \<and> UnwrapData (service tick refusing (\<lambda>s n. refusing) None) ''b''
        (holding [(''c'', [''unseal_token'' \<mapsto> IString ''k3''])])
     = (Inl (Error ''wrapping token is not valid or does not exist''),
        holding [(''c'', [''unseal_token'' \<mapsto> IString ''k3''])])
   \<and> unwrapUnseals (service tick refusing (\<lambda>s n. refusing) None) [''a'', ''b'', ''c'']
       (holding [(''a'', [''unseal_token'' \<mapsto> IString ''k1'']),
                 (''c'', [''unseal_token'' \<mapsto> IString ''k3''])])
     = (Err (Error ''wrapping token is not valid or does not exist''),
        holding [(''c'', [''unseal_token'' \<mapsto> IString ''k3''])])
   \<and> length (payloads (service tick refusing (\<lambda>s n. refusing) None) [''a'', ''b'', ''c'']
       (holding [(''a'', [''unseal_token'' \<mapsto> IString ''k1'']),
                 (''c'', [''unseal_token'' \<mapsto> IString ''k3''])])) = 1
   \<and> fst (unwrapUnseals (service tick refusing (\<lambda>s n. refusing) None) [''a'', ''b'', ''c'']
       (holding [(''a'', [''unseal_token'' \<mapsto> IString ''k1'']),
                 (''c'', [''unseal_token'' \<mapsto> IString ''k3''])])) \<noteq> Ok [''k1'', ''k3'']"
proof -
  let ?V = "service tick refusing (\<lambda>s n. refusing) None"
  let ?w = "holding [(''a'', [''unseal_token'' \<mapsto> IString ''k1'']),
                 (''c'', [''unseal_token'' \<mapsto> IString ''k3''])]"
  let ?w1 = "holding [(''c'', [''unseal_token'' \<mapsto> IString ''k3''])]"
  let ?e = "Error ''wrapping token is not valid or does not exist''"
  have a: "unwrapUnseals ?V [''a''] ?w = (Ok [''k1''], ?w1)"
    by (simp add: unwrapUnseals_def service_def holding_def idle_def fun_eq_iff)
  have b: "UnwrapData ?V ''b'' ?w1 = (Inl ?e, ?w1)"
    by (simp add: service_def holding_def idle_def)
  have p: "length (payloads ?V [''a'', ''b'', ''c''] ?w) = 1"
    by (simp add: service_def holding_def idle_def)
  show ?thesis
    using unwrapUnseals_all_or_nothing[where V = ?V and pre = "[''a'']" and v = ?w and shares = "[''k1'']" and ?v1.0 = ?w1
        and t = "''b''" and e = ?e and ?v2.0 = ?w1 and post = "[''c'']"
        and ts = "[''a'', ''b'', ''c'']" and ss = "[''k1'', ''k3'']" and v' = ?w1] a b p
    by simp
qed

text \<open>
  C10. \<^verbatim>\<open>unwrapUnseals\<close> does not panic when every payload the service hands out for the
  tokens holds a string under \<^verbatim>\<open>unseal_token\<close>, if it holds the key at all. When the tokens
  before \<open>t\<close> were all unwrapped and the payload of \<open>t\<close> holds a value under \<^verbatim>\<open>unseal_token\<close>
  that is not a string, the call panics: it returns neither shares nor an error.
\<close>

theorem unwrapUnseals_panics_on_non_string:
  "((\<forall>d \<in> set (payloads V ts v). \<forall>x. d ''unseal_token'' = Some x \<longrightarrow> (\<exists>s. x = IString s))
      \<longrightarrow> fst (unwrapUnseals V ts v) \<noteq> Panic)
   \<and> (unwrapUnseals V pre v = (Ok shares, v1) \<and> UnwrapData V t v1 = (Inr d, v2)
        \<and> d ''unseal_token'' = Some x \<and> (\<forall>s. x \<noteq> IString s)
      \<longrightarrow> unwrapUnseals V (pre @ t # post) v = (Panic, v2))"
  unfolding unwrapUnseals_def
  using unwrapLoop_append[of V pre "[]" v shares v1 "t # post"]
    unwrapLoop_no_panic[of V ts v "[]"]
  by (auto split: iface.splits)

theorem unwrapUnseals_panics_on_non_string_witness:
  "fst (unwrapUnseals (service tick refusing (\<lambda>s n. refusing) None) [''a'', ''b'']
       (holding [(''a'', [''unseal_token'' \<mapsto> IString ''k1'']),
                 (''n'', [''unseal_token'' \<mapsto> INumber 7]),
                 (''c'', [''unseal_token'' \<mapsto> IString ''k3''])])) \<noteq> Panic
   \<and> unwrapUnseals (service tick refusing (\<lambda>s n. refusing) None) [''a'', ''n'', ''c'']
       (holding [(''a'', [''unseal_token'' \<mapsto> IString ''k1'']),
                 (''n'', [''unseal_token'' \<mapsto> INumber 7]),
                 (''c'', [''unseal_token'' \<mapsto> IString ''k3''])])
     = (Panic, holding [(''c'', [''unseal_token'' \<mapsto> IString ''k3''])])"
proof -
  let ?V = "service tick refusing (\<lambda>s n. refusing) None"
  let ?w = "holding [(''a'', [''unseal_token'' \<mapsto> IString ''k1'']),
                 (''n'', [''unseal_token'' \<mapsto> INumber 7]),
                 (''c'', [''unseal_token'' \<mapsto> IString ''k3''])]"
  let ?w1 = "holding [(''n'', [''unseal_token'' \<mapsto> INumber 7]),
                 (''c'', [''unseal_token'' \<mapsto> IString ''k3''])]"
  let ?w2 = "holding [(''c'', [''unseal_token'' \<mapsto> IString ''k3''])]"
  have p: "\<forall>d \<in> set (payloads ?V [''a'', ''b''] ?w).
             \<forall>x. d ''unseal_token'' = Some x \<longrightarrow> (\<exists>s. x = IString s)"
    by (simp add: service_def holding_def idle_def)
  have a: "unwrapUnseals ?V [''a''] ?w = (Ok [''k1''], ?w1)"
    by (simp add: unwrapUnseals_def service_def holding_def idle_def fun_eq_iff)
  have b: "UnwrapData ?V ''n'' ?w1 = (Inr [''unseal_token'' \<mapsto> INumber 7], ?w2)"
    by (simp add: service_def holding_def idle_def fun_eq_iff)
  show ?thesis
    using unwrapUnseals_panics_on_non_string[where V = ?V and ts = "[''a'', ''b'']" and v = ?w
        and pre = "[''a'']" and shares = "[''k1'']" and ?v1.0 = ?w1 and t = "''n''"
        and d = "[''unseal_token'' \<mapsto> INumber 7]" and ?v2.0 = ?w2 and x = "INumber 7"
        and post = "[''c'']"]
      p a b
    by simp
qed

section \<open>Properties of appendUnseal\<close>

text \<open>
  C8. \<^verbatim>\<open>appendUnseal\<close> reads the bucket at \<^verbatim>\<open>unseal_wrapping_tokens/<hash>\<close>. When the record
  is there and holds no non-empty string under \<^verbatim>\<open>wrapping_tokens\<close> (the key is absent, or its
  value is empty or not a string), the call returns the error about the missing key in the
  state the read left: nothing is wrapped or written. When it holds the non-empty string
  \<open>raw\<close>, the tokens returned are the pieces of \<open>raw\<close> between the semicolons, followed by the
  new token.
\<close>

theorem appendUnseal_corrupt_bucket:
  "(ReadFromCubbyhole V (''unseal_wrapping_tokens/'' @ hash) v = (Inr (Some data), v1)
      \<and> (\<forall>s. data ''wrapping_tokens'' = Some (IString s) \<longrightarrow> s = [])
    \<longrightarrow> appendUnseal V hash unseal v
          = (([], Some (Error ''Could not find key 'wrapping_tokens' in cubbyhole'')), v1))
   \<and> (ReadFromCubbyhole V (''unseal_wrapping_tokens/'' @ hash) v = (Inr (Some data), v1)
      \<and> data ''wrapping_tokens'' = Some (IString raw) \<and> raw \<noteq> []
      \<and> WrapData V ''60m'' [''unseal_token'' \<mapsto> IString unseal] v1 = (Inr token, v2)
    \<longrightarrow> fst (fst (appendUnseal V hash unseal v)) = Split raw '';'' @ [token])"
proof -
  have "fst (assertString x) = [] \<longleftrightarrow> (\<forall>s. x = IString s \<longrightarrow> s = [])" for x
    by (cases x) auto
  then show ?thesis
    by (auto simp: appendUnseal_def Let_def split: prod.splits option.splits)
qed

theorem appendUnseal_corrupt_bucket_witness:
  "appendUnseal (service tick refusing (\<lambda>s n. refusing) None) ''1f'' ''k1''
       (storing [(''unseal_wrapping_tokens/1f'', [''wrapping_tokens'' \<mapsto> INumber 3])])
     = (([], Some (Error ''Could not find key 'wrapping_tokens' in cubbyhole'')),
        storing [(''unseal_wrapping_tokens/1f'', [''wrapping_tokens'' \<mapsto> INumber 3])])
   \<and> fst (fst (appendUnseal (service tick refusing (\<lambda>s n. refusing) None) ''2e'' ''k1''
       (storing [(''unseal_wrapping_tokens/2e'', [''wrapping_tokens'' \<mapsto> IString ''a;b''])])))
     = [''a'', ''b'', ''t'']"
proof -
  let ?V = "service tick refusing (\<lambda>s n. refusing) None"
  let ?w = "storing [(''unseal_wrapping_tokens/1f'', [''wrapping_tokens'' \<mapsto> INumber 3])]"
  let ?u = "storing [(''unseal_wrapping_tokens/2e'', [''wrapping_tokens'' \<mapsto> IString ''a;b''])]"
  have a: "ReadFromCubbyhole ?V (''unseal_wrapping_tokens/'' @ ''1f'') ?w
             = (Inr (Some [''wrapping_tokens'' \<mapsto> INumber 3]), ?w)"
    by (simp add: service_def storing_def idle_def)
  have b: "ReadFromCubbyhole ?V (''unseal_wrapping_tokens/'' @ ''2e'') ?u
             = (Inr (Some [''wrapping_tokens'' \<mapsto> IString ''a;b'']), ?u)"
    by (simp add: service_def storing_def idle_def)
  have c: "WrapData ?V ''60m'' [''unseal_token'' \<mapsto> IString ''k1''] ?u
             = (Inr ''t'', ?u\<lparr>wrapped := (wrapped ?u)(''t'' \<mapsto> [''unseal_token'' \<mapsto> IString ''k1'']),
                              minted := Suc (minted ?u)\<rparr>)"
    by (simp add: service_def storing_def idle_def tick_def)
  have s: "Split ''a;b'' '';'' = [''a'', ''b'']"
    by (simp add: Split_def)
  from appendUnseal_corrupt_bucket[where V = ?V and hash = "''1f''" and v = ?w
        and data = "[''wrapping_tokens'' \<mapsto> INumber 3]" and ?v1.0 = ?w and unseal = "''k1''"]
  have 1: "appendUnseal ?V ''1f'' ''k1'' ?w
     = (([], Some (Error ''Could not find key 'wrapping_tokens' in cubbyhole'')), ?w)"
    using a by simp
  from appendUnseal_corrupt_bucket[where V = ?V and hash = "''2e''" and v = ?u
        and data = "[''wrapping_tokens'' \<mapsto> IString ''a;b'']" and ?v1.0 = ?u and unseal = "''k1''"
        and raw = "''a;b''" and token = "''t''"]
  have 2: "fst (fst (appendUnseal ?V ''2e'' ''k1'' ?u)) = [''a'', ''b'', ''t'']"
    using b c s by simp
  from 1 2 show ?thesis by simp
qed

section \<open>Properties of Add\<close>

lemma typeOf_empty_iff: "typeOf raw = [] \<longleftrightarrow> (\<forall>s. raw ''Type'' = Some (IString s) \<longrightarrow> s = [])"
proof (cases "raw ''Type''")
  case None
  then show ?thesis by (simp add: typeOf_def)
next
  case (Some x)
  then show ?thesis by (cases x) (simp_all add: typeOf_def)
qed

text \<open>
  C5. \<^verbatim>\<open>Add\<close> reads the string under \<^verbatim>\<open>Type\<close>. When the key is missing or its value is not a
  string or is empty, \<^verbatim>\<open>Add\<close> returns the error that the type field is empty; when the lower
  case of the string is not \<^verbatim>\<open>policy\<close>, the error that the type is unsupported; in both cases
  with the empty ID and in the state it was called in, so nothing was written. Otherwise
  \<^verbatim>\<open>Add\<close> is the call of \<^verbatim>\<open>Create\<close> of the policy request.
\<close>

theorem Add_dispatches_on_Type:
  "((\<forall>s. raw ''Type'' = Some (IString s) \<longrightarrow> s = [])
      \<longrightarrow> Add P L auth raw v = (([], Some (Error ''Type field is empty'')), v))
   \<and> (raw ''Type'' = Some (IString t) \<and> t \<noteq> [] \<and> ToLower L t \<noteq> ''policy''
      \<longrightarrow> Add P L auth raw v = (([], Some (Error ''Unsupported request type'')), v))
   \<and> (raw ''Type'' = Some (IString t) \<and> t \<noteq> [] \<and> ToLower L t = ''policy''
      \<longrightarrow> Add P L auth raw v = Create P auth raw v)"
proof -
  have "raw ''Type'' = Some (IString t) \<Longrightarrow> typeOf raw = t"
    by (simp add: typeOf_def)
  then show ?thesis
    using typeOf_empty_iff[of raw] by (auto simp: Add_def Let_def)
qed

theorem Add_dispatches_on_Type_witness:
  "Add accepting (hashing (\<lambda>r. 0)) () [''Name'' \<mapsto> IString ''readonly''] idle
     = (([], Some (Error ''Type field is empty'')), idle)
   \<and> Add accepting (hashing (\<lambda>r. 0)) () [''Type'' \<mapsto> IString ''Token'', ''Name'' \<mapsto> IString ''readonly''] idle
     = (([], Some (Error ''Unsupported request type'')), idle)
   \<and> Add accepting (hashing (\<lambda>r. 0)) () [''Type'' \<mapsto> IString ''Policy'', ''Name'' \<mapsto> IString ''readonly''] idle
     = Create accepting () [''Type'' \<mapsto> IString ''Policy'', ''Name'' \<mapsto> IString ''readonly''] idle"
proof -
  let ?L = "hashing (\<lambda>r. 0)"
  have low: "ToLower ?L ''Token'' \<noteq> ''policy''" "ToLower ?L ''Policy'' = ''policy''"
    by (simp_all add: hashing_def) code_simp+
  from Add_dispatches_on_Type[where raw = "[''Name'' \<mapsto> IString ''readonly'']" and P = accepting
      and L = ?L and auth = "()" and v = idle]
  have 1: "Add accepting ?L () [''Name'' \<mapsto> IString ''readonly''] idle
     = (([], Some (Error ''Type field is empty'')), idle)"
    by simp
  from Add_dispatches_on_Type[where raw = "[''Type'' \<mapsto> IString ''Token'', ''Name'' \<mapsto> IString ''readonly'']"
      and P = accepting and L = ?L and auth = "()" and v = idle and t = "''Token''"]
  have 2: "Add accepting ?L () [''Type'' \<mapsto> IString ''Token'', ''Name'' \<mapsto> IString ''readonly''] idle
     = (([], Some (Error ''Unsupported request type'')), idle)"
    using low by simp
  from Add_dispatches_on_Type[where raw = "[''Type'' \<mapsto> IString ''Policy'', ''Name'' \<mapsto> IString ''readonly'']"
      and P = accepting and L = ?L and auth = "()" and v = idle and t = "''Policy''"]
  have 3: "Add accepting ?L () [''Type'' \<mapsto> IString ''Policy'', ''Name'' \<mapsto> IString ''readonly''] idle
     = Create accepting () [''Type'' \<mapsto> IString ''Policy'', ''Name'' \<mapsto> IString ''readonly''] idle"
    using low by simp
  from 1 2 3 show ?thesis by simp
qed

section \<open>Properties of generateRootToken\<close>

text \<open>
  C6. When the ceremony was started with an empty encoded token, the loop over the unseal
  keys came to its end, and the status it last assigned still holds an empty encoded token,
  \<^verbatim>\<open>generateRootToken\<close> returns the error that no root token could be generated, in the state
  the loop left. The result is the same whatever \<^verbatim>\<open>XORBase64\<close> and \<^verbatim>\<open>FormatUUID\<close> would do:
  nothing is decoded.
\<close>

theorem generateRootToken_token_still_empty:
  "GenerateRootInit V (EncodeToString L (GenerateRandomKey L 16)) v = ((Some st, None), v1)
   \<and> EncodedRootToken st = []
   \<and> submitShares V unsealKeys (Some st) v1 = (Inr (Some st'), v2)
   \<and> EncodedRootToken st' = []
   \<longrightarrow> generateRootToken V L unsealKeys v
         = (Err (Error ''Could not generate root token. Was vault re-keyed just now?''), v2)
       \<and> generateRootToken V (L\<lparr>XORBase64 := x, FormatUUID := f\<rparr>) unsealKeys v
         = (Err (Error ''Could not generate root token. Was vault re-keyed just now?''), v2)"
  by (simp add: generateRootToken_def Let_def)

theorem generateRootToken_token_still_empty_witness:
  "generateRootToken
     (service tick (Some \<lparr>Nonce = ''n1'', EncodedRootToken = []\<rparr>, None)
        (\<lambda>s n. (Some \<lparr>Nonce = ''n1'', EncodedRootToken = []\<rparr>, None)) None)
     (hashing (\<lambda>r. 0)) [''k1'', ''k2''] idle
   = (Err (Error ''Could not generate root token. Was vault re-keyed just now?''),
      idle\<lparr>submitted := [''k1'', ''k2'']\<rparr>)"
proof -
  let ?st = "\<lparr>Nonce = ''n1'', EncodedRootToken = []\<rparr>"
  let ?V = "service tick (Some ?st, None) (\<lambda>s n. (Some ?st, None)) None"
  let ?L = "hashing (\<lambda>r. 0)"
  have a: "GenerateRootInit ?V (EncodeToString ?L (GenerateRandomKey ?L 16)) idle = ((Some ?st, None), idle)"
    by (simp add: service_def)
  have b: "submitShares ?V [''k1'', ''k2''] (Some ?st) idle
             = (Inr (Some ?st), idle\<lparr>submitted := [''k1'', ''k2'']\<rparr>)"
    by (simp add: service_def idle_def)
  show ?thesis
    using generateRootToken_token_still_empty[where V = ?V and L = ?L and v = idle and st = ?st
        and ?v1.0 = idle and unsealKeys = "[''k1'', ''k2'']" and st' = ?st
        and ?v2.0 = "idle\<lparr>submitted := [''k1'', ''k2'']\<rparr>"] a b
    by simp
qed

text \<open>
  C9. When the ceremony is started and its status already holds an encoded token, no share
  is submitted: \<^verbatim>\<open>generateRootToken\<close> returns what decoding that token with the pad gives, in
  the state the start left, for every list of unseal keys. When the status holds the empty
  token, the state the call ends in is the state the loop over the unseal keys left.
\<close>

theorem generateRootToken_skips_submission:
  "(GenerateRootInit V (EncodeToString L (GenerateRandomKey L 16)) v = ((Some st, None), v1)
      \<and> EncodedRootToken st \<noteq> []
    \<longrightarrow> generateRootToken V L unsealKeys v
          = (decodeRootToken L (EncodedRootToken st) (EncodeToString L (GenerateRandomKey L 16)), v1))
   \<and> (GenerateRootInit V (EncodeToString L (GenerateRandomKey L 16)) v = ((Some st, None), v1)
      \<and> EncodedRootToken st = []
    \<longrightarrow> snd (generateRootToken V L unsealKeys v) = snd (submitShares V unsealKeys (Some st) v1))"
  by (auto simp: generateRootToken_def Let_def split: prod.splits sum.splits option.splits)

theorem generateRootToken_skips_submission_witness:
  "generateRootToken
     (service tick (Some \<lparr>Nonce = ''n1'', EncodedRootToken = ''done''\<rparr>, None)
        (\<lambda>s n. (Some \<lparr>Nonce = ''n1'', EncodedRootToken = ''late''\<rparr>, None)) None)
     (hashing (\<lambda>r. 0)) [''k1'', ''k2''] idle
   = (Ok ''done'', idle)
   \<and> snd (generateRootToken
     (service tick (Some \<lparr>Nonce = ''n1'', EncodedRootToken = []\<rparr>, None)
        (\<lambda>s n. (Some \<lparr>Nonce = ''n1'', EncodedRootToken = ''late''\<rparr>, None)) None)
     (hashing (\<lambda>r. 0)) [''k1'', ''k2''] idle)
   = idle\<lparr>submitted := [''k1'', ''k2'']\<rparr>"
proof -
  let ?st = "\<lparr>Nonce = ''n1'', EncodedRootToken = ''done''\<rparr>"
  let ?emp = "\<lparr>Nonce = ''n1'', EncodedRootToken = []\<rparr>"
  let ?up = "\<lambda>s n. (Some \<lparr>Nonce = ''n1'', EncodedRootToken = ''late''\<rparr>, None :: error option)"
  let ?V = "service tick (Some ?st, None) ?up None"
  let ?W = "service tick (Some ?emp, None) ?up None"
  let ?L = "hashing (\<lambda>r. 0)"
  have a: "GenerateRootInit ?V (EncodeToString ?L (GenerateRandomKey ?L 16)) idle = ((Some ?st, None), idle)"
    by (simp add: service_def)
  have c: "GenerateRootInit ?W (EncodeToString ?L (GenerateRandomKey ?L 16)) idle = ((Some ?emp, None), idle)"
    by (simp add: service_def)
  have d: "decodeRootToken ?L ''done'' (EncodeToString ?L (GenerateRandomKey ?L 16)) = Ok ''done''"
    unfolding decodeRootToken_def hashing_def by simp code_simp
  have b: "snd (submitShares ?W [''k1'', ''k2''] (Some ?emp) idle) = idle\<lparr>submitted := [''k1'', ''k2'']\<rparr>"
    by (simp add: service_def idle_def)
  from generateRootToken_skips_submission[where V = ?V and L = ?L and v = idle and st = ?st
        and ?v1.0 = idle and unsealKeys = "[''k1'', ''k2'']"] a d
  have 1: "generateRootToken ?V ?L [''k1'', ''k2''] idle = (Ok ''done'', idle)"
    by simp
  from generateRootToken_skips_submission[where V = ?W and L = ?L and v = idle and st = ?emp
        and ?v1.0 = idle and unsealKeys = "[''k1'', ''k2'']"] c b
  have 2: "snd (generateRootToken ?W ?L [''k1'', ''k2''] idle) = idle\<lparr>submitted := [''k1'', ''k2'']\<rparr>"
    by simp
  from 1 2 show ?thesis by simp
qed

text \<open>
  C2. A share that the service rejects while the cancellation succeeds: the error of the
  rejection is dropped and the loop goes on with the status the rejected update returned.
  With the nil status of a rejected update the call panics; with a status that holds an
  empty token it returns the error of an incomplete ceremony, which does not name the
  rejection. Only when the cancellation fails too does it return the error naming both.
\<close>

theorem generateRootToken_drops_rejection:
  "generateRootToken
     (service tick (Some \<lparr>Nonce = ''n1'', EncodedRootToken = []\<rparr>, None)
        (\<lambda>s n. (None, Some (Error ''invalid share''))) None)
     (hashing (\<lambda>r. 0)) [''bad''] idle
   = (Panic, idle\<lparr>submitted := [''bad''], cancelled := 1\<rparr>)
   \<and> generateRootToken
     (service tick (Some \<lparr>Nonce = ''n1'', EncodedRootToken = []\<rparr>, None)
        (\<lambda>s n. (Some \<lparr>Nonce = ''n1'', EncodedRootToken = []\<rparr>, Some (Error ''invalid share''))) None)
     (hashing (\<lambda>r. 0)) [''bad''] idle
   = (Err (Error ''Could not generate root token. Was vault re-keyed just now?''),
      idle\<lparr>submitted := [''bad''], cancelled := 1\<rparr>)
   \<and> generateRootToken
     (service tick (Some \<lparr>Nonce = ''n1'', EncodedRootToken = []\<rparr>, None)
        (\<lambda>s n. (None, Some (Error ''invalid share''))) (Some (Error ''no ceremony'')))
     (hashing (\<lambda>r. 0)) [''bad''] idle
   = (Err (Error ''Could not generate root token: invalid share, no ceremony''),
      idle\<lparr>submitted := [''bad''], cancelled := 1\<rparr>)"
  by (simp add: generateRootToken_def Let_def service_def idle_def hashing_def)

section \<open>The change ID\<close>

lemma distinct_digits: "distinct digits"
  by (simp add: digits_def)

lemma length_digits: "length digits = 36"
  by (simp add: digits_def)

lemma digit_inject: "n < 36 \<Longrightarrow> m < 36 \<Longrightarrow> digits ! n = digits ! m \<Longrightarrow> n = m"
  using distinct_digits length_digits by (simp add: nth_eq_iff_index_eq)

lemma formatBits_nonempty: "formatBits base n \<noteq> []"
  by (subst formatBits.simps) simp

lemma formatBits_small: "n < 16 \<Longrightarrow> formatBits 16 n = [digits ! n]"
  by (subst formatBits.simps) simp

lemma formatBits_large:
  "16 \<le> n \<Longrightarrow> formatBits 16 n = formatBits 16 (n div 16) @ [digits ! (n mod 16)]"
  by (subst formatBits.simps) simp

lemma formatBits_inject: "formatBits 16 n = formatBits 16 m \<Longrightarrow> n = m"
proof (induction n arbitrary: m rule: less_induct)
  case (less n)
  show ?case
  proof (cases "n < 16")
    case True
    show ?thesis
    proof (cases "m < 16")
      case True
      with \<open>n < 16\<close> less.prems show ?thesis
        by (simp add: formatBits_small digit_inject)
    next
      case False
      with \<open>n < 16\<close> less.prems show ?thesis
        using formatBits_nonempty[of 16 "m div 16"]
        by (simp add: formatBits_small formatBits_large)
    qed
  next
    case False
    show ?thesis
    proof (cases "m < 16")
      case True
      with \<open>\<not> n < 16\<close> less.prems show ?thesis
        using formatBits_nonempty[of 16 "n div 16"]
        by (simp add: formatBits_small formatBits_large)
    next
      case mbig: False
      from False mbig less.prems
      have eq: "formatBits 16 (n div 16) = formatBits 16 (m div 16)"
        and d: "digits ! (n mod 16) = digits ! (m mod 16)"
        by (simp_all add: formatBits_large)
      have "n div 16 < n" using False by simp
      then have q: "n div 16 = m div 16" using less.IH eq by blast
      have r: "n mod 16 = m mod 16" using d by (intro digit_inject) simp_all
      show ?thesis using q r by (metis div_mult_mod_eq)
    qed
  qed
qed

lemma FormatUint_inject: "FormatUint h 16 = FormatUint h' 16 \<Longrightarrow> h = h'"
  using formatBits_inject[of "unat h" "unat h'"] by (simp add: FormatUint_def word_unat_eq_iff)

lemma hash_collision:
  fixes hashfn :: "PolicyRequest \<Rightarrow> 64 word"
  shows "\<exists>name name'. name \<noteq> name'
           \<and> hashfn \<lparr>Type = ''policy'', Name = name\<rparr> = hashfn \<lparr>Type = ''policy'', Name = name'\<rparr>"
proof (rule ccontr)
  assume "\<not> ?thesis"
  then have "inj (\<lambda>name. hashfn \<lparr>Type = ''policy'', Name = name\<rparr>)"
    by (auto simp: inj_on_def)
  moreover have "finite (range (\<lambda>name. hashfn \<lparr>Type = ''policy'', Name = name\<rparr>))"
    by (rule finite_subset[OF subset_UNIV]) simp
  ultimately have "finite (UNIV :: string set)"
    by (rule finite_imageD[rotated])
  then show False
    using infinite_UNIV_listI by blast
qed

text \<open>
  C7 as stated: every change of a field changes the hash. The hash is a \<^verbatim>\<open>uint64\<close>, so for
  every hash function there are two requests that differ in one field and pass the test
  of lines 75 and 119 under the same change ID.
\<close>

theorem hashMismatch_collision:
  "\<forall>hashfn. \<exists>name name'. name \<noteq> name'
     \<and> \<not> hashMismatch (hashing hashfn) \<lparr>Type = ''policy'', Name = name'\<rparr>
           (FormatUint (hashfn \<lparr>Type = ''policy'', Name = name\<rparr>) 16)"
proof
  fix hashfn :: "PolicyRequest \<Rightarrow> 64 word"
  obtain name name' where "name \<noteq> name'"
    "hashfn \<lparr>Type = ''policy'', Name = name\<rparr> = hashfn \<lparr>Type = ''policy'', Name = name'\<rparr>"
    using hash_collision[of hashfn] by blast
  then show "\<exists>name name'. name \<noteq> name'
     \<and> \<not> hashMismatch (hashing hashfn) \<lparr>Type = ''policy'', Name = name'\<rparr>
           (FormatUint (hashfn \<lparr>Type = ''policy'', Name = name\<rparr>) 16)"
    by (intro exI[of _ name] exI[of _ name']) (simp add: hashMismatch_def hashing_def)
qed

lemma filter_same_name:
  "distinct (map fst xs) \<Longrightarrow> k \<in> set xs \<Longrightarrow> filter (\<lambda>x. fst k = fst x) xs = [k]"
proof (induction xs)
  case Nil
  then show ?case by simp
next
  case (Cons x xs)
  show ?case
  proof (cases "k = x")
    case True
    have "filter (\<lambda>y. fst x = fst y) xs = []"
      using Cons.prems(1) by (auto simp: filter_empty_conv)
    with True show ?thesis by simp
  next
    case False
    with Cons.prems have "k \<in> set xs" "fst k \<noteq> fst x"
      by (auto simp: image_iff)
    with Cons show ?thesis by simp
  qed
qed

lemma canonical_mset:
  assumes "distinct (map fst fs)" "mset fs' = mset fs"
  shows "canonical fs' = canonical fs"
proof -
  have m': "mset (map fst fs') = mset (map fst fs)"
    using assms(2) by simp
  have d': "distinct (map fst fs')"
    using mset_eq_imp_distinct_iff[OF m'] assms(1) by simp
  have "sort_key fst fs' = sort_key fst fs"
  proof (rule properties_for_sort_key)
    show "mset (sort_key fst fs) = mset fs'"
      using assms(2) by simp
    show "filter (\<lambda>x. fst k = fst x) (sort_key fst fs) = filter (\<lambda>x. fst k = fst x) fs'"
      if "k \<in> set (sort_key fst fs)" for k
    proof -
      have "set fs' = set fs"
        using assms(2) by (rule mset_eq_setD)
      then have k: "k \<in> set fs" "k \<in> set fs'"
        using that by simp_all
      have ms: "mset (map fst (sort_key fst fs)) = mset (map fst fs)"
        by simp
      have ds: "distinct (map fst (sort_key fst fs))"
        using mset_eq_imp_distinct_iff[OF ms] assms(1) by simp
      show ?thesis
        unfolding filter_same_name[OF ds that] filter_same_name[OF d' k(2)] ..
    qed
    show "sorted (map fst (sort_key fst fs))"
      by simp
  qed
  then show ?thesis by (simp add: canonical_def)
qed

lemma canonical_eq_iff:
  assumes "distinct (map fst fs)" "distinct (map fst fs')"
  shows "canonical fs' = canonical fs \<longleftrightarrow> set fs' = set fs"
proof
  assume "canonical fs' = canonical fs"
  then have "set (sort_key fst fs') = set (sort_key fst fs)"
    by (simp add: canonical_def)
  then show "set fs' = set fs" by simp
next
  assume s: "set fs' = set fs"
  have d: "distinct fs" and d': "distinct fs'"
    using assms by (simp_all add: distinct_map)
  have "mset fs' = mset fs"
    by (rule iffD1[OF set_eq_iff_mset_eq_distinct[OF d' d] s])
  with assms(1) show "canonical fs' = canonical fs"
    by (rule canonical_mset)
qed

lemma canonical_fieldsOf: "canonical (fieldsOf req') = canonical (fieldsOf req) \<longleftrightarrow> req' = req"
proof -
  have "canonical (fieldsOf req') = canonical (fieldsOf req) \<longleftrightarrow> set (fieldsOf req') = set (fieldsOf req)"
    by (rule canonical_eq_iff) (simp_all add: fieldsOf_def)
  also have "\<dots> \<longleftrightarrow> Type req' = Type req \<and> Name req' = Name req"
    by (simp add: fieldsOf_def doubleton_eq_iff)
  also have "\<dots> \<longleftrightarrow> req' = req"
    by (cases req, cases req') auto
  finally show ?thesis .
qed

text \<open>
  C7 as amended. The change ID is a function of the fields of the request, whatever order
  they are given in: lists of the same fields have the same change ID. Every field, name and
  value, is in what is hashed: the canonical forms of two lists of fields are the same
  exactly when the fields are the same, and for requests exactly when the requests are
  equal. Rendering in base 16 loses nothing. So the test of lines 75 and 119 rejects a
  changed request under the change ID of the original exactly when the 64-bit hashes of
  the two canonical forms differ: a change of a field goes unnoticed only when the hash
  function gives both canonical forms the same 64 bits.
\<close>

theorem computeHash_of_all_fields:
  "(distinct (map fst fs) \<and> mset fs' = mset fs \<longrightarrow> computeHash H fs' = computeHash H fs)
   \<and> (distinct (map fst fs) \<and> distinct (map fst fs')
        \<longrightarrow> (canonical fs' = canonical fs \<longleftrightarrow> set fs' = set fs))
   \<and> (canonical (fieldsOf req') = canonical (fieldsOf req) \<longleftrightarrow> req' = req)
   \<and> (computeHash H fs' = computeHash H fs \<longleftrightarrow> H (canonical fs') = H (canonical fs))
   \<and> (hashMismatch (hashing (\<lambda>r. structuralHash H (fieldsOf r))) req' (computeHash H (fieldsOf req))
        \<longleftrightarrow> H (canonical (fieldsOf req')) \<noteq> H (canonical (fieldsOf req)))"
proof (intro conjI impI)
  assume "distinct (map fst fs) \<and> mset fs' = mset fs"
  then show "computeHash H fs' = computeHash H fs"
    using canonical_mset[of fs fs'] by (simp add: computeHash_def structuralHash_def)
next
  assume "distinct (map fst fs) \<and> distinct (map fst fs')"
  then show "canonical fs' = canonical fs \<longleftrightarrow> set fs' = set fs"
    using canonical_eq_iff[of fs fs'] by simp
next
  show "canonical (fieldsOf req') = canonical (fieldsOf req) \<longleftrightarrow> req' = req"
    by (rule canonical_fieldsOf)
next
  show "computeHash H fs' = computeHash H fs \<longleftrightarrow> H (canonical fs') = H (canonical fs)"
    using FormatUint_inject by (auto simp: computeHash_def structuralHash_def)
next
  show "hashMismatch (hashing (\<lambda>r. structuralHash H (fieldsOf r))) req' (computeHash H (fieldsOf req))
        \<longleftrightarrow> H (canonical (fieldsOf req')) \<noteq> H (canonical (fieldsOf req))"
    using FormatUint_inject
    by (auto simp: hashMismatch_def hashing_def computeHash_def structuralHash_def)
qed

theorem computeHash_of_all_fields_witness:
  "computeHash fnvFields [(''Name'', ''readonly''), (''Type'', ''policy'')]
     = computeHash fnvFields [(''Type'', ''policy''), (''Name'', ''readonly'')]
   \<and> canonical [(''Name'', ''readonly''), (''Type'', ''policy'')]
     = canonical [(''Type'', ''policy''), (''Name'', ''readonly'')]
   \<and> canonical [(''Type'', ''policy''), (''Name'', ''readonly'')]
     = [(''Name'', ''readonly''), (''Type'', ''policy'')]
   \<and> hashMismatch (hashing (\<lambda>r. structuralHash fnvFields (fieldsOf r)))
       \<lparr>Type = ''policy'', Name = ''readwrite''\<rparr>
       (computeHash fnvFields (fieldsOf \<lparr>Type = ''policy'', Name = ''readonly''\<rparr>))
   \<and> hashMismatch (hashing (\<lambda>r. structuralHash fnvFields (fieldsOf r)))
       \<lparr>Type = ''Policy'', Name = ''readonly''\<rparr>
       (computeHash fnvFields (fieldsOf \<lparr>Type = ''policy'', Name = ''readonly''\<rparr>))
   \<and> \<not> hashMismatch (hashing (\<lambda>r. structuralHash fnvFields (fieldsOf r)))
       \<lparr>Type = ''policy'', Name = ''readonly''\<rparr>
       (computeHash fnvFields (fieldsOf \<lparr>Type = ''policy'', Name = ''readonly''\<rparr>))"
proof -
  let ?fs = "[(''Type'', ''policy''), (''Name'', ''readonly'')]"
  let ?fs' = "[(''Name'', ''readonly''), (''Type'', ''policy'')]"
  let ?req = "\<lparr>Type = ''policy'', Name = ''readonly''\<rparr>"
  let ?named = "\<lparr>Type = ''policy'', Name = ''readwrite''\<rparr>"
  let ?typed = "\<lparr>Type = ''Policy'', Name = ''readonly''\<rparr>"
  have d: "distinct (map fst ?fs)" "distinct (map fst ?fs')"
    by simp_all
  have m: "mset ?fs' = mset ?fs"
    by (simp add: add_mset_commute)
  have e: "set ?fs' = set ?fs"
    by (simp add: insert_commute)
  have c: "canonical ?fs = ?fs'"
    by code_simp
  have c1: "canonical (fieldsOf ?req) = [(''Name'', ''readonly''), (''Type'', ''policy'')]"
    unfolding fieldsOf_def by code_simp
  have c2: "canonical (fieldsOf ?named) = [(''Name'', ''readwrite''), (''Type'', ''policy'')]"
    unfolding fieldsOf_def by code_simp
  have c3: "canonical (fieldsOf ?typed) = [(''Name'', ''readonly''), (''Type'', ''Policy'')]"
    unfolding fieldsOf_def by code_simp
  have h2: "fnvFields (canonical (fieldsOf ?named)) \<noteq> fnvFields (canonical (fieldsOf ?req))"
    unfolding c1 c2 by (simp add: fnvFields_def fnv1a_def)
  have h3: "fnvFields (canonical (fieldsOf ?typed)) \<noteq> fnvFields (canonical (fieldsOf ?req))"
    unfolding c1 c3 by (simp add: fnvFields_def fnv1a_def)
  from computeHash_of_all_fields[where fs = ?fs and fs' = ?fs' and H = fnvFields
      and req = ?req and req' = ?named] d m e h2
  have 1: "computeHash fnvFields ?fs' = computeHash fnvFields ?fs"
    and 2: "canonical ?fs' = canonical ?fs"
    and 3: "hashMismatch (hashing (\<lambda>r. structuralHash fnvFields (fieldsOf r))) ?named
              (computeHash fnvFields (fieldsOf ?req))"
    by blast+
  from computeHash_of_all_fields[where fs = ?fs and fs' = ?fs' and H = fnvFields
      and req = ?req and req' = ?typed] h3
  have 4: "hashMismatch (hashing (\<lambda>r. structuralHash fnvFields (fieldsOf r))) ?typed
              (computeHash fnvFields (fieldsOf ?req))"
    by blast
  from computeHash_of_all_fields[where fs = ?fs and fs' = ?fs' and H = fnvFields
      and req = ?req and req' = ?req]
  have 5: "\<not> hashMismatch (hashing (\<lambda>r. structuralHash fnvFields (fieldsOf r))) ?req
              (computeHash fnvFields (fieldsOf ?req))"
    by blast
  from 1 2 c 3 4 5 show ?thesis by blast
qed

section \<open>Properties of Get\<close>

text \<open>
  C1 as stated: a record whose stored payload has one field altered is never returned. For
  every hash function there are two names such that, under the change ID of the request
  with the one name, \<^verbatim>\<open>Get\<close> returns the stored request that holds the other name.
\<close>

theorem Get_returns_altered_payload:
  "\<forall>hashfn. \<exists>name name'. name \<noteq> name'
     \<and> fst (Get (service tick refusing (\<lambda>s n. refusing) None) accepting (hashing hashfn) ()
              (FormatUint (hashfn \<lparr>Type = ''policy'', Name = name\<rparr>) 16)
              (storing [(''requests/'' @ FormatUint (hashfn \<lparr>Type = ''policy'', Name = name\<rparr>) 16,
                         [''Type'' \<mapsto> IString ''policy'', ''Name'' \<mapsto> IString name'])]))
         = Inr \<lparr>Type = ''policy'', Name = name'\<rparr>"
proof
  fix hashfn :: "PolicyRequest \<Rightarrow> 64 word"
  obtain name name' where ne: "name \<noteq> name'"
    and eq: "hashfn \<lparr>Type = ''policy'', Name = name\<rparr> = hashfn \<lparr>Type = ''policy'', Name = name'\<rparr>"
    using hash_collision[of hashfn] by blast
  have low: "ToLower (hashing hashfn) ''policy'' = ''policy''"
    by (simp add: hashing_def) code_simp
  have lib: "Decode (hashing hashfn) = decodePolicy" "\<And>r. Hash (hashing hashfn) r = Inr (hashfn r)"
    by (simp_all add: hashing_def)
  have dec: "decodePolicy [''Type'' \<mapsto> IString ''policy'', ''Name'' \<mapsto> IString name']
               = Inr \<lparr>Type = ''policy'', Name = name'\<rparr>"
    by (simp add: decodePolicy_def decodeField_def)
  have ty: "typeOf [''Type'' \<mapsto> IString ''policy'', ''Name'' \<mapsto> IString name'] = ''policy''"
    by (simp add: typeOf_def)
  have "fst (Get (service tick refusing (\<lambda>s n. refusing) None) accepting (hashing hashfn) ()
              (FormatUint (hashfn \<lparr>Type = ''policy'', Name = name\<rparr>) 16)
              (storing [(''requests/'' @ FormatUint (hashfn \<lparr>Type = ''policy'', Name = name\<rparr>) 16,
                         [''Type'' \<mapsto> IString ''policy'', ''Name'' \<mapsto> IString name'])]))
         = Inr \<lparr>Type = ''policy'', Name = name'\<rparr>"
    using eq
    by (simp add: Get_def service_def storing_def idle_def ty Let_def low lib dec
        hashMismatch_def accepting_def)
  with ne show "\<exists>name name'. name \<noteq> name'
     \<and> fst (Get (service tick refusing (\<lambda>s n. refusing) None) accepting (hashing hashfn) ()
              (FormatUint (hashfn \<lparr>Type = ''policy'', Name = name\<rparr>) 16)
              (storing [(''requests/'' @ FormatUint (hashfn \<lparr>Type = ''policy'', Name = name\<rparr>) 16,
                         [''Type'' \<mapsto> IString ''policy'', ''Name'' \<mapsto> IString name'])]))
         = Inr \<lparr>Type = ''policy'', Name = name'\<rparr>"
    by blast
qed

text \<open>
  C1 as amended. \<^verbatim>\<open>Get\<close> reads the record at \<^verbatim>\<open>requests/<hash>\<close> and returns the error that
  the change ID was not found when there is none. For a record of type policy that decodes
  to \<open>req\<close>: when the hash of \<open>req\<close> cannot be computed or its rendering in base 16 differs
  from \<open>hash\<close>, \<^verbatim>\<open>Get\<close> returns the error that the hashes do not match, in the state the read
  left; otherwise it calls \<^verbatim>\<open>Verify\<close> and returns its error, or \<open>req\<close> when there is none.
  Whenever \<^verbatim>\<open>Get\<close> returns a request, it is the decoded stored record, its hash renders to
  \<open>hash\<close>, and \<^verbatim>\<open>Verify\<close> accepted it.
\<close>

theorem Get_checks_hash_then_verifies:
  "(ReadFromCubbyhole V (''requests/'' @ hash) v = (Inr None, v1)
      \<longrightarrow> Get V P L auth hash v = (Inl (Error ''Change ID not found''), v1))
   \<and> (ReadFromCubbyhole V (''requests/'' @ hash) v = (Inr (Some data), v1)
        \<and> typeOf data \<noteq> [] \<and> ToLower L (typeOf data) = ''policy'' \<and> Decode L data = Inr req
      \<longrightarrow> (hashMismatch L req hash
             \<longrightarrow> Get V P L auth hash v = (Inl (Error ''Hashes do not match''), v1))
        \<and> (\<not> hashMismatch L req hash
             \<longrightarrow> Get V P L auth hash v
                   = (case Verify P req auth v1 of
                        (Some err, v2) \<Rightarrow> (Inl err, v2)
                      | (None, v2) \<Rightarrow> (Inr req, v2))))
   \<and> (Get V P L auth hash v = (Inr r, v')
      \<longrightarrow> (\<exists>data v1 h. ReadFromCubbyhole V (''requests/'' @ hash) v = (Inr (Some data), v1)
             \<and> Decode L data = Inr r \<and> Hash L r = Inr h \<and> FormatUint h 16 = hash
             \<and> Verify P r auth v1 = (None, v')))"
proof (intro conjI impI)
  assume "ReadFromCubbyhole V (''requests/'' @ hash) v = (Inr None, v1)"
  then show "Get V P L auth hash v = (Inl (Error ''Change ID not found''), v1)"
    by (simp add: Get_def)
next
  assume "ReadFromCubbyhole V (''requests/'' @ hash) v = (Inr (Some data), v1)
        \<and> typeOf data \<noteq> [] \<and> ToLower L (typeOf data) = ''policy'' \<and> Decode L data = Inr req"
    and "hashMismatch L req hash"
  then show "Get V P L auth hash v = (Inl (Error ''Hashes do not match''), v1)"
    by (simp add: Get_def Let_def)
next
  assume "ReadFromCubbyhole V (''requests/'' @ hash) v = (Inr (Some data), v1)
        \<and> typeOf data \<noteq> [] \<and> ToLower L (typeOf data) = ''policy'' \<and> Decode L data = Inr req"
    and "\<not> hashMismatch L req hash"
  then show "Get V P L auth hash v
                   = (case Verify P req auth v1 of
                        (Some err, v2) \<Rightarrow> (Inl err, v2)
                      | (None, v2) \<Rightarrow> (Inr req, v2))"
    by (simp add: Get_def Let_def)
next
  assume g: "Get V P L auth hash v = (Inr r, v')"
  obtain res v1 where rd: "ReadFromCubbyhole V (''requests/'' @ hash) v = (res, v1)"
    by (cases "ReadFromCubbyhole V (''requests/'' @ hash) v")
  from g rd obtain data where res: "res = Inr (Some data)"
    by (cases res) (auto simp: Get_def split: option.splits)
  from g rd res have pol: "typeOf data \<noteq> []" "ToLower L (typeOf data) = ''policy''"
    by (auto simp: Get_def Let_def split: if_splits)
  from g rd res pol have dec: "Decode L data = Inr r" and ok: "\<not> hashMismatch L r hash"
    and ver: "Verify P r auth v1 = (None, v')"
    by (auto simp: Get_def Let_def split: sum.splits if_splits prod.splits option.splits)
  from ok obtain h where "Hash L r = Inr h" "FormatUint h 16 = hash"
    by (auto simp: hashMismatch_def split: sum.splits)
  with rd res dec ver show "\<exists>data v1 h. ReadFromCubbyhole V (''requests/'' @ hash) v = (Inr (Some data), v1)
             \<and> Decode L data = Inr r \<and> Hash L r = Inr h \<and> FormatUint h 16 = hash
             \<and> Verify P r auth v1 = (None, v')"
    by blast
qed


theorem Get_checks_hash_then_verifies_witness:
  "Get (service tick refusing (\<lambda>s n. refusing) None) accepting
       (hashing (\<lambda>r. of_nat (length (Name r)))) () ''8'' idle
     = (Inl (Error ''Change ID not found''), idle)
   \<and> Get (service tick refusing (\<lambda>s n. refusing) None) accepting
       (hashing (\<lambda>r. of_nat (length (Name r)))) () ''7''
       (storing [(''requests/7'', [''Type'' \<mapsto> IString ''Policy'', ''Name'' \<mapsto> IString ''readonly''])])
     = (Inl (Error ''Hashes do not match''),
        storing [(''requests/7'', [''Type'' \<mapsto> IString ''Policy'', ''Name'' \<mapsto> IString ''readonly''])])
   \<and> Get (service tick refusing (\<lambda>s n. refusing) None) accepting
       (hashing (\<lambda>r. of_nat (length (Name r)))) () ''8''
       (storing [(''requests/8'', [''Type'' \<mapsto> IString ''Policy'', ''Name'' \<mapsto> IString ''readonly''])])
     = (Inr \<lparr>Type = ''Policy'', Name = ''readonly''\<rparr>,
        storing [(''requests/8'', [''Type'' \<mapsto> IString ''Policy'', ''Name'' \<mapsto> IString ''readonly''])])
   \<and> Hash (hashing (\<lambda>r. of_nat (length (Name r)))) \<lparr>Type = ''Policy'', Name = ''readonly''\<rparr> = Inr 8
   \<and> FormatUint 8 16 = ''8''"
proof -
  let ?V = "service tick refusing (\<lambda>s n. refusing) None"
  let ?L = "hashing (\<lambda>r. of_nat (length (Name r)))"
  let ?data = "[''Type'' \<mapsto> IString ''Policy'', ''Name'' \<mapsto> IString ''readonly'']"
  let ?req = "\<lparr>Type = ''Policy'', Name = ''readonly''\<rparr>"
  let ?u = "storing [(''requests/7'', ?data)]"
  let ?w = "storing [(''requests/8'', ?data)]"
  have fmt: "FormatUint 8 16 = ''8''"
    by (simp add: FormatUint_def formatBits_small digits_def)
  have hs: "Hash ?L ?req = Inr 8"
    by (simp add: hashing_def)
  have ty: "typeOf ?data \<noteq> []" "ToLower ?L (typeOf ?data) = ''policy''"
    by (simp_all add: typeOf_def hashing_def) code_simp
  have dec: "Decode ?L ?data = Inr ?req"
    by (simp add: hashing_def decodePolicy_def decodeField_def)
  have bad: "hashMismatch ?L ?req ''7''"
    using hs fmt by (simp add: hashMismatch_def)
  have good: "\<not> hashMismatch ?L ?req ''8''"
    using hs fmt by (simp add: hashMismatch_def)
  have r0: "ReadFromCubbyhole ?V (''requests/'' @ ''8'') idle = (Inr None, idle)"
    by (simp add: service_def idle_def)
  have r7: "ReadFromCubbyhole ?V (''requests/'' @ ''7'') ?u = (Inr (Some ?data), ?u)"
    by (simp add: service_def storing_def idle_def)
  have r8: "ReadFromCubbyhole ?V (''requests/'' @ ''8'') ?w = (Inr (Some ?data), ?w)"
    by (simp add: service_def storing_def idle_def)
  have ver: "Verify accepting ?req () ?w = (None, ?w)"
    by (simp add: accepting_def)
  from Get_checks_hash_then_verifies[where V = ?V and hash = "''8''" and v = idle and ?v1.0 = idle
      and P = accepting and L = ?L and auth = "()" and data = ?data and req = ?req and r = ?req
      and v' = idle] r0
  have 1: "Get ?V accepting ?L () ''8'' idle = (Inl (Error ''Change ID not found''), idle)"
    by simp
  from Get_checks_hash_then_verifies[where V = ?V and hash = "''7''" and v = ?u and ?v1.0 = ?u
      and P = accepting and L = ?L and auth = "()" and data = ?data and req = ?req and r = ?req
      and v' = ?u] r7 ty dec bad
  have 2: "Get ?V accepting ?L () ''7'' ?u = (Inl (Error ''Hashes do not match''), ?u)"
    by simp
  from Get_checks_hash_then_verifies[where V = ?V and hash = "''8''" and v = ?w and ?v1.0 = ?w
      and P = accepting and L = ?L and auth = "()" and data = ?data and req = ?req and r = ?req
      and v' = ?w] r8 ty dec good ver
  have 3: "Get ?V accepting ?L () ''8'' ?w = (Inr ?req, ?w)"
    by simp
  from 1 2 3 hs fmt show ?thesis by simp
qed

section \<open>The bucket of wrapping tokens\<close>

lemma printable_no_space:
  assumes "(0x21::nat) \<le> of_char c" "of_char c \<le> (0x7E::nat)"
  shows "\<not> asciiSpace c" "c \<noteq> CHR 0xC2" "c \<noteq> CHR 0xE1" "c \<noteq> CHR 0xE2" "c \<noteq> CHR 0xE3"
  using assms by (auto simp: asciiSpace_def)

lemma printable_spaceWidth:
  "(0x21::nat) \<le> of_char c \<Longrightarrow> of_char c \<le> (0x7E::nat) \<Longrightarrow> spaceWidth (c # r) = 0"
  by (simp add: spaceWidth_def printable_no_space)


lemma tokenChar_spaceWidth: "tokenChar c \<Longrightarrow> spaceWidth (c # r) = 0"
  by (simp add: tokenChar_def printable_spaceWidth)

lemma bracket_spaceWidth: "spaceWidth (CHR ''['' # r) = 0" "spaceWidth (CHR '']'' # r) = 0"
  by (simp_all add: printable_spaceWidth)

lemma spaceWidth_blank: "spaceWidth (CHR '' '' # r) = 1"
  by (simp add: spaceWidth_def asciiSpace_def)

lemma fieldsFrom_token:
  "\<forall>c \<in> set cs. tokenChar c \<Longrightarrow> fieldsFrom 0 cur (cs @ s) = fieldsFrom 0 (rev cs @ cur) s"
  by (induction cs arbitrary: cur) (simp_all add: tokenChar_spaceWidth)

lemma fieldsFrom_blank:
  "cur \<noteq> [] \<Longrightarrow> fieldsFrom 0 cur (CHR '' '' # s) = rev cur # fieldsFrom 0 [] s"
  by (simp add: spaceWidth_blank)

lemma fieldsFrom_nonempty: "cur \<noteq> [] \<Longrightarrow> fieldsFrom 0 cur s \<noteq> []"
  by (induction s arbitrary: cur) simp_all

lemma Join_Cons: "Join (x # ys) sep = (if ys = [] then x else x @ sep @ Join ys sep)"
  by (cases ys) simp_all

lemma Join_concat: "Join (x # ys) [c] = x @ concat (map ((#) c) ys)"
  by (induction ys arbitrary: x) (simp_all add: Join_Cons)


lemma Join_fieldsFrom:
  "\<forall>t \<in> set rest. tokenText t \<Longrightarrow> cur \<noteq> [] \<Longrightarrow>
   Join (fieldsFrom 0 cur (concat (map ((#) CHR '' '') rest) @ '']'')) '';''
     = rev cur @ concat (map ((#) CHR '';'') rest) @ '']''"
proof (induction rest arbitrary: cur)
  case Nil
  then show ?case by (simp add: bracket_spaceWidth)
next
  case (Cons t rest)
  have tc: "\<forall>c \<in> set t. tokenChar c" and ne: "t \<noteq> []"
    using Cons.prems(1) by (simp_all add: tokenText_def)
  let ?s = "concat (map ((#) CHR '' '') rest) @ '']''"
  have "fieldsFrom 0 cur (concat (map ((#) CHR '' '') (t # rest)) @ '']'')
        = fieldsFrom 0 cur (CHR '' '' # (t @ ?s))"
    by simp
  also have "\<dots> = rev cur # fieldsFrom 0 [] (t @ ?s)"
    using Cons.prems(2) by (rule fieldsFrom_blank)
  also have "fieldsFrom 0 [] (t @ ?s) = fieldsFrom 0 (rev t) ?s"
    using fieldsFrom_token[OF tc, of "[]" ?s] by simp
  finally have step: "fieldsFrom 0 cur (concat (map ((#) CHR '' '') (t # rest)) @ '']'')
        = rev cur # fieldsFrom 0 (rev t) ?s" .
  have ih: "Join (fieldsFrom 0 (rev t) ?s) '';'' = t @ concat (map ((#) CHR '';'') rest) @ '']''"
    using Cons.IH[of "rev t"] Cons.prems(1) ne by simp
  have nonempty: "fieldsFrom 0 (rev t) ?s \<noteq> []"
    using ne by (simp add: fieldsFrom_nonempty)
  show ?case
    unfolding step using ih nonempty by (simp add: Join_Cons)
qed

lemma Join_Fields_Sprint:
  assumes "ts \<noteq> []" "\<forall>t \<in> set ts. tokenText t"
  shows "Join (Fields (Sprint ts)) '';'' = ''['' @ Join ts '';'' @ '']''"
proof -
  obtain t rest where ts: "ts = t # rest" using assms(1) by (cases ts) auto
  have tc: "\<forall>c \<in> set t. tokenChar c" and rest: "\<forall>t \<in> set rest. tokenText t"
    using assms(2) ts by (simp_all add: tokenText_def)
  let ?s = "concat (map ((#) CHR '' '') rest) @ '']''"
  have "Fields (Sprint ts) = fieldsFrom 0 [] (CHR ''['' # (t @ ?s))"
    by (simp add: Fields_def Sprint_def ts Join_concat del: fieldsFrom.simps)
  also have "\<dots> = fieldsFrom 0 ''['' (t @ ?s)"
    by (simp add: bracket_spaceWidth)
  also have "\<dots> = fieldsFrom 0 (rev t @ ''['') ?s"
    using tc by (rule fieldsFrom_token)
  finally have "Join (Fields (Sprint ts)) '';''
      = rev (rev t @ ''['') @ concat (map ((#) CHR '';'') rest) @ '']''"
    using Join_fieldsFrom[OF rest, of "rev t @ ''[''"] by simp
  then show ?thesis by (simp add: ts Join_concat)
qed

lemma Join_tokens_ends:
  "ts \<noteq> [] \<Longrightarrow> \<forall>t \<in> set ts. tokenText t \<Longrightarrow>
   Join ts '';'' \<noteq> [] \<and> tokenChar (hd (Join ts '';'')) \<and> tokenChar (last (Join ts '';''))"
proof (induction ts "'';''" rule: Join.induct)
  case 1
  then show ?case by simp
next
  case (2 x)
  then show ?case by (simp add: tokenText_def)
next
  case (3 x y ys)
  then show ?case by (simp add: tokenText_def)
qed

lemma Trim_brackets:
  assumes "u \<noteq> []" "tokenChar (hd u)" "tokenChar (last u)"
  shows "Trim (''['' @ u @ '']'') ''[]'' = u"
proof -
  have a: "dropWhile (\<lambda>c. c \<in> set ''[]'') (u @ '']'') = u @ '']''"
    using assms(1,2) by (cases u) (simp_all add: tokenChar_def)
  have b: "dropWhile (\<lambda>c. c \<in> set ''[]'') (rev u) = rev u"
    using assms(1,3) by (cases u rule: rev_cases) (simp_all add: tokenChar_def)
  have "dropWhile (\<lambda>c. c \<in> set ''[]'') (''['' @ u @ '']'') = u @ '']''"
    using a by simp
  then show ?thesis
    unfolding Trim_def using b by simp
qed

lemma serialize_tokens:
  assumes "ts \<noteq> []" "\<forall>t \<in> set ts. tokenText t"
  shows "Trim (Join (Fields (Sprint ts)) '';'') ''[]'' = Join ts '';''"
  using Join_Fields_Sprint[OF assms] Join_tokens_ends[OF assms] Trim_brackets[of "Join ts '';''"]
  by simp


lemma splitFrom_token:
  "CHR '';'' \<notin> set t \<Longrightarrow> splitFrom '';'' 0 cur (t @ s) = splitFrom '';'' 0 (rev t @ cur) s"
  by (induction t arbitrary: cur) auto

lemma splitFrom_pieces:
  "\<forall>t \<in> set rest. CHR '';'' \<notin> set t \<Longrightarrow>
   splitFrom '';'' 0 cur (concat (map ((#) CHR '';'') rest)) = rev cur # rest"
proof (induction rest arbitrary: cur)
  case Nil
  then show ?case by simp
next
  case (Cons t rest)
  then show ?case using splitFrom_token[of t "[]"] by simp
qed

lemma Split_Join:
  assumes "ts \<noteq> []" "\<forall>t \<in> set ts. tokenText t"
  shows "Split (Join ts '';'') '';'' = ts"
proof -
  obtain t rest where ts: "ts = t # rest" using assms(1) by (cases ts) auto
  have free: "CHR '';'' \<notin> set t" "\<forall>t \<in> set rest. CHR '';'' \<notin> set t"
    using assms(2) ts by (auto simp: tokenText_def tokenChar_def)
  have "Split (Join ts '';'') '';'' = splitFrom '';'' 0 [] (t @ concat (map ((#) CHR '';'') rest))"
    by (simp add: Split_def ts Join_concat)
  also have "\<dots> = splitFrom '';'' 0 (rev t) (concat (map ((#) CHR '';'') rest))"
    using splitFrom_token[OF free(1), of "[]"] by simp
  also have "\<dots> = t # rest"
    using splitFrom_pieces[OF free(2), of "rev t"] by simp
  finally show ?thesis by (simp add: ts)
qed


lemma appendUnseal_service:
  assumes wf: "\<forall>n. tokenText (mint n)" and ts: "\<forall>t \<in> set ts. tokenText t"
    and bucket: "cubbyhole w (''unseal_wrapping_tokens/'' @ hash)
                  = (if ts = [] then None else Some [''wrapping_tokens'' \<mapsto> IString (Join ts '';'')])"
  shows "appendUnseal (service mint init update cancel) hash unseal w
           = ((ts @ [mint (minted w)], None),
              w\<lparr>wrapped := (wrapped w)(mint (minted w) \<mapsto> [''unseal_token'' \<mapsto> IString unseal]),
                minted := Suc (minted w),
                cubbyhole := (cubbyhole w)(''unseal_wrapping_tokens/'' @ hash
                    \<mapsto> [''wrapping_tokens'' \<mapsto> IString (Join (ts @ [mint (minted w)]) '';'')])\<rparr>)"
proof -
  have all: "\<forall>t \<in> set (ts @ [mint (minted w)]). tokenText t"
    using wf ts by simp
  have ser: "Trim (Join (Fields (Sprint (ts @ [mint (minted w)]))) '';'') ''[]''
               = Join (ts @ [mint (minted w)]) '';''"
    using serialize_tokens[OF _ all] by simp
  show ?thesis
  proof (cases "ts = []")
    case True
    then show ?thesis
      using bucket ser by (simp add: appendUnseal_def service_def Let_def)
  next
    case False
    have raw: "Join ts '';'' \<noteq> []" "Split (Join ts '';'') '';'' = ts"
      using Join_tokens_ends[OF False ts] Split_Join[OF False ts] by simp_all
    show ?thesis
      using False bucket ser raw by (simp add: appendUnseal_def service_def Let_def)
  qed
qed


lemma upt_shift: "[j..<j + Suc n] = j # [Suc j..<Suc j + n]"
  by (simp add: upt_conv_Cons del: upt_Suc)

lemma appendUnseals_service:
  assumes inj: "inj mint" and wf: "\<forall>n. tokenText (mint n)"
  shows "\<forall>t \<in> set ts. tokenText t \<Longrightarrow>
     cubbyhole w (''unseal_wrapping_tokens/'' @ hash)
       = (if ts = [] then None else Some [''wrapping_tokens'' \<mapsto> IString (Join ts '';'')]) \<Longrightarrow>
     \<exists>w'. appendUnseals (service mint init update cancel) hash shares w
             = (map (\<lambda>k. (ts @ map mint [minted w..<minted w + Suc k], None)) [0..<length shares], w')
         \<and> cubbyhole w' (''unseal_wrapping_tokens/'' @ hash)
             = (if ts @ map mint [minted w..<minted w + length shares] = [] then None
                else Some [''wrapping_tokens'' \<mapsto>
                       IString (Join (ts @ map mint [minted w..<minted w + length shares]) '';'')])
         \<and> (\<forall>i < length shares.
               wrapped w' (mint (minted w + i)) = Some [''unseal_token'' \<mapsto> IString (shares ! i)])
         \<and> (\<forall>n < minted w. wrapped w' (mint n) = wrapped w (mint n))"
proof (induction shares arbitrary: ts w)
  case Nil
  then show ?case by simp
next
  case (Cons s shares)
  let ?V = "service mint init update cancel"
  let ?m = "minted w"
  let ?w1 = "w\<lparr>wrapped := (wrapped w)(mint ?m \<mapsto> [''unseal_token'' \<mapsto> IString s]),
                minted := Suc ?m,
                cubbyhole := (cubbyhole w)(''unseal_wrapping_tokens/'' @ hash
                    \<mapsto> [''wrapping_tokens'' \<mapsto> IString (Join (ts @ [mint ?m]) '';'')])\<rparr>"
  have step: "appendUnseal ?V hash s w = ((ts @ [mint ?m], None), ?w1)"
    using appendUnseal_service[OF wf Cons.prems(1) Cons.prems(2)] .
  have ts1: "\<forall>t \<in> set (ts @ [mint ?m]). tokenText t"
    using wf Cons.prems(1) by simp
  have b1: "cubbyhole ?w1 (''unseal_wrapping_tokens/'' @ hash)
       = (if ts @ [mint ?m] = [] then None
          else Some [''wrapping_tokens'' \<mapsto> IString (Join (ts @ [mint ?m]) '';'')])"
    by simp
  have m1: "minted ?w1 = Suc ?m"
    by simp
  from Cons.IH[OF ts1 b1, unfolded m1] obtain w' where
    run: "appendUnseals ?V hash shares ?w1
            = (map (\<lambda>k. ((ts @ [mint ?m]) @ map mint [Suc ?m..<Suc ?m + Suc k], None)) [0..<length shares], w')"
    and bk: "cubbyhole w' (''unseal_wrapping_tokens/'' @ hash)
             = (if (ts @ [mint ?m]) @ map mint [Suc ?m..<Suc ?m + length shares] = [] then None
                else Some [''wrapping_tokens'' \<mapsto>
                       IString (Join ((ts @ [mint ?m]) @ map mint [Suc ?m..<Suc ?m + length shares]) '';'')])"
    and wr: "\<forall>i < length shares.
               wrapped w' (mint (Suc ?m + i)) = Some [''unseal_token'' \<mapsto> IString (shares ! i)]"
    and old: "\<forall>n < Suc ?m. wrapped w' (mint n) = wrapped ?w1 (mint n)"
    by blast
  have up: "\<And>k. ts @ map mint [?m..<?m + Suc k] = (ts @ [mint ?m]) @ map mint [Suc ?m..<Suc ?m + k]"
    by (simp only: upt_shift list.map append_Cons append_Nil append_assoc)
  have f0: "ts @ map mint [?m..<?m + Suc 0] = ts @ [mint ?m]"
    using up[of 0] by simp
  have fS: "\<And>k. ts @ map mint [?m..<?m + Suc (Suc k)]
                 = (ts @ [mint ?m]) @ map mint [Suc ?m..<Suc ?m + Suc k]"
    by (rule up)
  have res: "appendUnseals ?V hash (s # shares) w
        = (map (\<lambda>k. (ts @ map mint [?m..<?m + Suc k], None)) [0..<length (s # shares)], w')"
  proof -
    have "map (\<lambda>k. (ts @ map mint [?m..<?m + Suc k], None :: error option)) [0..<length (s # shares)]
          = (ts @ [mint ?m], None)
            # map (\<lambda>k. ((ts @ [mint ?m]) @ map mint [Suc ?m..<Suc ?m + Suc k], None)) [0..<length shares]"
      by (simp only: length_Cons map_upt_Suc f0 fS)
    then show ?thesis using step run by (simp del: upt_Suc)
  qed
  have bk': "cubbyhole w' (''unseal_wrapping_tokens/'' @ hash)
             = (if ts @ map mint [?m..<?m + length (s # shares)] = [] then None
                else Some [''wrapping_tokens'' \<mapsto>
                       IString (Join (ts @ map mint [?m..<?m + length (s # shares)]) '';'')])"
    using bk up[of "length shares"] by (simp del: upt_Suc)
  have wr': "\<forall>i < length (s # shares).
               wrapped w' (mint (?m + i)) = Some [''unseal_token'' \<mapsto> IString ((s # shares) ! i)]"
  proof (intro allI impI)
    fix i assume i: "i < length (s # shares)"
    show "wrapped w' (mint (?m + i)) = Some [''unseal_token'' \<mapsto> IString ((s # shares) ! i)]"
    proof (cases i)
      case 0
      then show ?thesis using old by simp
    next
      case (Suc j)
      then show ?thesis using wr i by simp
    qed
  qed
  have old': "\<forall>n < ?m. wrapped w' (mint n) = wrapped w (mint n)"
  proof (intro allI impI)
    fix n assume n: "n < ?m"
    then have "mint n \<noteq> mint ?m" using inj by (auto dest: injD)
    then show "wrapped w' (mint n) = wrapped w (mint n)" using old n by simp
  qed
  from res bk' wr' old' show ?case by blast
qed

lemma unwrapLoop_service:
  assumes inj: "inj mint"
  shows "\<forall>i < length ss. wrapped w (mint (j + i)) = Some [''unseal_token'' \<mapsto> IString (ss ! i)] \<Longrightarrow>
     \<exists>w'. unwrapLoop (service mint init update cancel) (map mint [j..<j + length ss]) acc w
             = (Ok (acc @ ss), w')"
proof (induction ss arbitrary: j acc w)
  case Nil
  then show ?case by simp
next
  case (Cons s ss)
  let ?V = "service mint init update cancel"
  let ?w1 = "w\<lparr>wrapped := (wrapped w)(mint j := None)\<rparr>"
  have first: "wrapped w (mint j) = Some [''unseal_token'' \<mapsto> IString s]"
    using Cons.prems[rule_format, of 0] by simp
  have rest: "\<forall>i < length ss. wrapped ?w1 (mint (Suc j + i)) = Some [''unseal_token'' \<mapsto> IString (ss ! i)]"
  proof (intro allI impI)
    fix i assume i: "i < length ss"
    have "mint (Suc j + i) \<noteq> mint j" using inj by (auto dest: injD)
    then show "wrapped ?w1 (mint (Suc j + i)) = Some [''unseal_token'' \<mapsto> IString (ss ! i)]"
      using Cons.prems[rule_format, of "Suc i"] i by simp
  qed
  from Cons.IH[OF rest, of "acc @ [s]"] obtain w' where
    "unwrapLoop ?V (map mint [Suc j..<Suc j + length ss]) (acc @ [s]) ?w1 = (Ok ((acc @ [s]) @ ss), w')"
    by blast
  moreover have "map mint [j..<j + length (s # ss)] = mint j # map mint [Suc j..<Suc j + length ss]"
    by (simp only: length_Cons upt_shift list.map)
  moreover have "UnwrapData ?V (mint j) w = (Inr [''unseal_token'' \<mapsto> IString s], ?w1)"
    using first by (simp add: service_def)
  ultimately show ?case by (simp del: upt_Suc)
qed


text \<open>
  C3. On the model of the service, with the bucket of the change ID absent at the start and
  wrapping tokens that are distinct and made of token characters: the calls of
  \<^verbatim>\<open>appendUnseal\<close> for the shares, one after the other, all succeed; call number \<open>k + 1\<close>
  returns the \<open>k + 1\<close> tokens issued so far in the order of the calls, so the last call
  returns as many tokens as there are shares; the bucket then holds these tokens joined by
  semicolons; and \<^verbatim>\<open>unwrapUnseals\<close> of the last list returns the shares in the order they were
  submitted.
\<close>

theorem appendUnseal_sequence:
  assumes "inj mint" and "\<forall>n. tokenText (mint n)"
    and "cubbyhole w (''unseal_wrapping_tokens/'' @ hash) = None"
  shows "\<exists>w'. appendUnseals (service mint init update cancel) hash shares w
             = (map (\<lambda>k. (map mint [minted w..<minted w + Suc k], None)) [0..<length shares], w')
         \<and> (shares \<noteq> [] \<longrightarrow> cubbyhole w' (''unseal_wrapping_tokens/'' @ hash)
               = Some [''wrapping_tokens'' \<mapsto>
                         IString (Join (map mint [minted w..<minted w + length shares]) '';'')])
         \<and> (\<exists>w''. unwrapUnseals (service mint init update cancel)
                      (map mint [minted w..<minted w + length shares]) w' = (Ok shares, w''))"
proof -
  have b: "cubbyhole w (''unseal_wrapping_tokens/'' @ hash)
       = (if ([]::string list) = [] then None else Some [''wrapping_tokens'' \<mapsto> IString (Join [] '';'')])"
    using assms(3) by simp
  have e: "\<forall>t \<in> set ([]::string list). tokenText t"
    by simp
  from appendUnseals_service[OF assms(1,2) e b, of init update cancel shares] obtain w' where
    run: "appendUnseals (service mint init update cancel) hash shares w
            = (map (\<lambda>k. ([] @ map mint [minted w..<minted w + Suc k], None)) [0..<length shares], w')"
    and bk: "cubbyhole w' (''unseal_wrapping_tokens/'' @ hash)
             = (if [] @ map mint [minted w..<minted w + length shares] = [] then None
                else Some [''wrapping_tokens'' \<mapsto>
                       IString (Join ([] @ map mint [minted w..<minted w + length shares]) '';'')])"
    and wr: "\<forall>i < length shares.
               wrapped w' (mint (minted w + i)) = Some [''unseal_token'' \<mapsto> IString (shares ! i)]"
    by blast
  from unwrapLoop_service[OF assms(1) wr, of init update cancel "[]"] obtain w'' where
    un: "unwrapLoop (service mint init update cancel) (map mint [minted w..<minted w + length shares]) [] w'
           = (Ok ([] @ shares), w'')"
    by blast
  have 1: "appendUnseals (service mint init update cancel) hash shares w
             = (map (\<lambda>k. (map mint [minted w..<minted w + Suc k], None)) [0..<length shares], w')"
    using run by (simp only: append_Nil)
  have 2: "shares \<noteq> [] \<longrightarrow> cubbyhole w' (''unseal_wrapping_tokens/'' @ hash)
               = Some [''wrapping_tokens'' \<mapsto>
                         IString (Join (map mint [minted w..<minted w + length shares]) '';'')]"
    using bk by (simp del: upt_Suc)
  have 3: "unwrapUnseals (service mint init update cancel)
                      (map mint [minted w..<minted w + length shares]) w' = (Ok shares, w'')"
    using un by (simp only: unwrapUnseals_def append_Nil)
  from 1 2 3 show ?thesis by blast
qed

lemma inj_tick: "inj tick"
  by (simp add: inj_def tick_def)

lemma tokenText_tick: "tokenText (tick n)"
  by (simp add: tokenText_def tokenChar_def tick_def)

theorem appendUnseal_sequence_witness:
  "inj tick \<and> (\<forall>n. tokenText (tick n))
   \<and> cubbyhole idle (''unseal_wrapping_tokens/'' @ ''1f'') = None
   \<and> fst (appendUnseals (service tick refusing (\<lambda>s n. refusing) None) ''1f'' [''k1'', ''k2'', ''k3''] idle)
       = [([''t''], None), ([''t'', ''tt''], None), ([''t'', ''tt'', ''ttt''], None)]
   \<and> cubbyhole (snd (appendUnseals (service tick refusing (\<lambda>s n. refusing) None) ''1f''
                        [''k1'', ''k2'', ''k3''] idle)) ''unseal_wrapping_tokens/1f''
       = Some [''wrapping_tokens'' \<mapsto> IString ''t;tt;ttt'']
   \<and> fst (unwrapUnseals (service tick refusing (\<lambda>s n. refusing) None) [''t'', ''tt'', ''ttt'']
            (snd (appendUnseals (service tick refusing (\<lambda>s n. refusing) None) ''1f''
                    [''k1'', ''k2'', ''k3''] idle)))
       = Ok [''k1'', ''k2'', ''k3'']"
proof -
  let ?V = "service tick refusing (\<lambda>s n. refusing) None"
  let ?shares = "[''k1'', ''k2'', ''k3'']"
  have i: "inj tick" by (rule inj_tick)
  have t: "\<forall>n. tokenText (tick n)" by (simp add: tokenText_tick)
  have c: "cubbyhole idle (''unseal_wrapping_tokens/'' @ ''1f'') = None"
    by (simp add: idle_def)
  have m: "minted idle = 0" by (simp add: idle_def)
  have toks: "map tick [0..<0 + length ?shares] = [''t'', ''tt'', ''ttt'']"
    by code_simp
  have lists: "map (\<lambda>k. (map tick [0..<0 + Suc k], None :: error option)) [0..<length ?shares]
        = [([''t''], None), ([''t'', ''tt''], None), ([''t'', ''tt'', ''ttt''], None)]"
    by code_simp
  have j: "Join [''t'', ''tt'', ''ttt''] '';'' = ''t;tt;ttt''"
    by simp
  from appendUnseal_sequence[OF i t c, of refusing "\<lambda>s n. refusing" None ?shares, unfolded m toks lists j]
  obtain w' w'' where
    1: "appendUnseals ?V ''1f'' ?shares idle
          = ([([''t''], None), ([''t'', ''tt''], None), ([''t'', ''tt'', ''ttt''], None)], w')"
    and 2: "cubbyhole w' (''unseal_wrapping_tokens/'' @ ''1f'') = Some [''wrapping_tokens'' \<mapsto> IString ''t;tt;ttt'']"
    and 3: "unwrapUnseals ?V [''t'', ''tt'', ''ttt''] w' = (Ok ?shares, w'')"
    by auto
  from i t c 1 2 3 show ?thesis by simp
qed

text \<open>
  The assumption on the characters of a token is needed: with a token that holds a
  semicolon, the second call reads two tokens back from the bucket and returns three.
\<close>

lemma appendUnseal_token_with_semicolon:
  "fst (appendUnseals (service (\<lambda>n. ''a;b'') refusing (\<lambda>s n. refusing) None) ''1f'' [''k1'', ''k2''] idle)
     = [([''a;b''], None), ([''a'', ''b'', ''a;b''], None)]"
  by (simp add: appendUnseal_def service_def idle_def Let_def Fields_def Sprint_def Trim_def
      Split_def spaceWidth_def asciiSpace_def)

end
